theory Spec2Isabelle
  imports Main "HOL-Library.Sublist"
begin

section \<open>The autonomous web agent of \<^verbatim>\<open>autonomous_web_agent.py\<close>\<close>

text \<open>
  The theory embeds the class \<^verbatim>\<open>MockMultiOnClient\<close> and the coroutine
  \<^verbatim>\<open>autonomous_process\<close>. The browser (Playwright) and the language model (OpenAI) are
  external services: they are a parameter of every definition, a record of operations over
  an arbitrary world state, each of which either returns a value or raises.
  Only exceptions derived from Python's \<^verbatim>\<open>Exception\<close> are modelled (the ones an
  \<^verbatim>\<open>except Exception\<close> clause catches); task cancellation is outside the model.
\<close>

subsection \<open>Python strings\<close>

text \<open>
  A Python \<^verbatim>\<open>str\<close> is a \<^typ>\<open>string\<close>. Case mapping and white space are the ASCII
  ones: \<^verbatim>\<open>upper\<close> and \<^verbatim>\<open>lower\<close> leave every character outside \<^verbatim>\<open>a-z\<close>,
  \<^verbatim>\<open>A-Z\<close> unchanged.
\<close>

abbreviation (input) sq :: char where
  "sq \<equiv> CHR 0x27"

definition upper_char :: "char \<Rightarrow> char" where
  "upper_char c =
     (case map_of (zip ''abcdefghijklmnopqrstuvwxyz'' ''ABCDEFGHIJKLMNOPQRSTUVWXYZ'') c of
        Some u \<Rightarrow> u | None \<Rightarrow> c)"

definition lower_char :: "char \<Rightarrow> char" where
  "lower_char c =
     (case map_of (zip ''ABCDEFGHIJKLMNOPQRSTUVWXYZ'' ''abcdefghijklmnopqrstuvwxyz'') c of
        Some l \<Rightarrow> l | None \<Rightarrow> c)"

definition py_upper :: "string \<Rightarrow> string" where
  "py_upper s = map upper_char s"

definition py_lower :: "string \<Rightarrow> string" where
  "py_lower s = map lower_char s"

text \<open>\<^verbatim>\<open>sub in s\<close>\<close>
definition py_in :: "string \<Rightarrow> string \<Rightarrow> bool" where
  "py_in sub s = sublist sub s"

text \<open>\<^verbatim>\<open>s.startswith(p)\<close>\<close>
definition py_startswith :: "string \<Rightarrow> string \<Rightarrow> bool" where
  "py_startswith s p = prefix p s"

text \<open>White space of \<^verbatim>\<open>str.strip()\<close> and \<^verbatim>\<open>str.split()\<close>: tab, line feed, vertical tab,
  form feed, carriage return, the four separators \<^verbatim>\<open>0x1c-0x1f\<close> and the space.\<close>
definition is_space :: "char \<Rightarrow> bool" where
  "is_space c = (c \<in> set [CHR 0x09, CHR 0x0A, CHR 0x0B, CHR 0x0C, CHR 0x0D,
                          CHR 0x1C, CHR 0x1D, CHR 0x1E, CHR 0x1F, CHR 0x20])"

text \<open>\<^verbatim>\<open>s.strip()\<close>\<close>
definition py_strip :: "string \<Rightarrow> string" where
  "py_strip s = rev (dropWhile is_space (rev (dropWhile is_space s)))"

text \<open>\<^verbatim>\<open>s.split(sep)\<close> for a non-empty separator: the pieces between the occurrences of
  \<^verbatim>\<open>sep\<close>, found from left to right without overlap. The second argument is the piece being
  read, reversed. (Python raises on an empty separator; the source only splits at the
  constants \<^verbatim>\<open>'\<close> and \<^verbatim>\<open>http\<close>.)\<close>
fun split_from :: "string \<Rightarrow> string \<Rightarrow> string \<Rightarrow> string list" where
  "split_from sep acc [] = [rev acc]"
| "split_from sep acc (c # cs) =
     (if sep \<noteq> [] \<and> prefix sep (c # cs)
      then rev acc # split_from sep [] (drop (length sep) (c # cs))
      else split_from sep (c # acc) cs)"

definition py_split :: "string \<Rightarrow> string \<Rightarrow> string list" where
  "py_split s sep = split_from sep [] s"

text \<open>\<^verbatim>\<open>s.split()\<close>: the maximal runs of characters that are not white space.\<close>
fun words_from :: "string \<Rightarrow> string \<Rightarrow> string list" where
  "words_from acc [] = (if acc = [] then [] else [rev acc])"
| "words_from acc (c # cs) =
     (if is_space c
      then (if acc = [] then words_from [] cs else rev acc # words_from [] cs)
      else words_from (c # acc) cs)"

definition py_split_ws :: "string \<Rightarrow> string list" where
  "py_split_ws s = words_from [] s"

text \<open>\<^verbatim>\<open>sep.join(xs)\<close>\<close>
fun py_join :: "string \<Rightarrow> string list \<Rightarrow> string" where
  "py_join sep [] = []"
| "py_join sep [x] = x"
| "py_join sep (x # y # ys) = x @ sep @ py_join sep (y # ys)"

subsection \<open>Exceptions and the effect monad\<close>

datatype py_exception = PyException (exc_type: string) (exc_str: string)

text \<open>\<^verbatim>\<open>xs[i]\<close> for \<^verbatim>\<open>i >= 0\<close>\<close>
definition py_index :: "'a list \<Rightarrow> nat \<Rightarrow> py_exception + 'a" where
  "py_index xs i =
     (if i < length xs then Inr (xs ! i)
      else Inl (PyException ''IndexError'' ''list index out of range''))"

text \<open>The attributes of a \<^verbatim>\<open>MockMultiOnClient\<close>. The handles \<^verbatim>\<open>playwright\<close>,
  \<^verbatim>\<open>browser\<close> and \<^verbatim>\<open>page\<close> are only tested for being set.\<close>
record client =
  playwright :: bool
  browser :: bool
  page :: bool
  session_id :: "string option"
  current_url :: "string option"
  screenshot :: "string option"
  step_count :: nat

text \<open>
  The state of a run: the client object, the world of the external services, and a ghost
  log \<open>faults\<close> of the exceptions that browser operations have raised so far.
\<close>
record 'w machine =
  self :: client
  world :: 'w
  faults :: "py_exception list"

type_synonym ('w, 'a) io = "'w machine \<Rightarrow> (py_exception + 'a) \<times> 'w machine"

type_synonym ('w, 'a) ext = "'w \<Rightarrow> (py_exception + 'a) \<times> 'w"

definition return :: "'a \<Rightarrow> ('w, 'a) io" where
  "return x = (\<lambda>m. (Inr x, m))"

definition raise :: "py_exception \<Rightarrow> ('w, 'a) io" where
  "raise e = (\<lambda>m. (Inl e, m))"

definition bind :: "('w, 'a) io \<Rightarrow> ('a \<Rightarrow> ('w, 'b) io) \<Rightarrow> ('w, 'b) io" where
  "bind f g = (\<lambda>m. case f m of (Inl e, m') \<Rightarrow> (Inl e, m') | (Inr x, m') \<Rightarrow> g x m')"

text \<open>\<^verbatim>\<open>try: f  except Exception as e: h e\<close>\<close>
definition try_except :: "('w, 'a) io \<Rightarrow> (py_exception \<Rightarrow> ('w, 'a) io) \<Rightarrow> ('w, 'a) io" where
  "try_except f h = (\<lambda>m. case f m of (Inl e, m') \<Rightarrow> h e m' | (Inr x, m') \<Rightarrow> (Inr x, m'))"

text \<open>A pure computation that may raise.\<close>
definition lift :: "py_exception + 'a \<Rightarrow> ('w, 'a) io" where
  "lift r = (\<lambda>m. (r, m))"

text \<open>A browser operation: it runs on the world, and a raised exception is logged.\<close>
definition page_call :: "('w, 'a) ext \<Rightarrow> ('w, 'a) io" where
  "page_call f = (\<lambda>m. case f (world m) of
      (Inl e, w') \<Rightarrow> (Inl e, m\<lparr>world := w', faults := faults m @ [e]\<rparr>)
    | (Inr x, w') \<Rightarrow> (Inr x, m\<lparr>world := w'\<rparr>))"

text \<open>A call of the language-model service.\<close>
definition model_call :: "('w, 'a) ext \<Rightarrow> ('w, 'a) io" where
  "model_call f = (\<lambda>m. case f (world m) of (r, w') \<Rightarrow> (r, m\<lparr>world := w'\<rparr>))"

definition get_self :: "('w, client) io" where
  "get_self = (\<lambda>m. (Inr (self m), m))"

definition set_self :: "(client \<Rightarrow> client) \<Rightarrow> ('w, unit) io" where
  "set_self f = (\<lambda>m. (Inr (), m\<lparr>self := f (self m)\<rparr>))"

subsection \<open>The external services\<close>

type_synonym handle = nat

text \<open>One entry of the list the element-extraction script returns.\<close>
record element_info =
  el_tag :: string
  el_text :: string
  el_type :: string
  el_name :: string
  el_id :: string
  el_href :: string

text \<open>What the prompt of \<^verbatim>\<open>determine_action\<close> is built from.\<close>
record prompt =
  p_task :: string
  p_step :: nat
  p_url :: "string option"
  p_visible_text :: string
  p_elements :: "element_info list"

text \<open>A chat completion: the \<^verbatim>\<open>message.content\<close> of each of its \<^verbatim>\<open>choices\<close>
  (\<^verbatim>\<open>None\<close> is possible).\<close>
record completion =
  choices :: "string option list"

record 'w services =
  playwright_start :: "('w, unit) ext"
  chromium_launch :: "('w, unit) ext"
  new_page :: "('w, unit) ext"
  goto :: "string \<Rightarrow> ('w, unit) ext"
  wait_for_timeout :: "nat \<Rightarrow> ('w, unit) ext"
  page_screenshot :: "('w, string) ext"
  page_content :: "('w, string) ext"
  evaluate_visible_text :: "('w, string) ext"
  evaluate_interactive_elements :: "('w, element_info list) ext"
  evaluate_scroll_by :: "nat \<Rightarrow> ('w, unit) ext"
  query_selector_all :: "string \<Rightarrow> ('w, handle list) ext"
  query_selector :: "string \<Rightarrow> ('w, handle option) ext"
  text_content :: "handle \<Rightarrow> ('w, string option) ext"
  click :: "handle \<Rightarrow> ('w, unit) ext"
  fill :: "handle \<Rightarrow> string \<Rightarrow> ('w, unit) ext"
  keyboard_press :: "string \<Rightarrow> ('w, unit) ext"
  browser_close :: "('w, unit) ext"
  playwright_stop :: "('w, unit) ext"
  time_now :: "'w \<Rightarrow> string"
  chat_completions_create :: "prompt \<Rightarrow> ('w, completion) ext"

subsection \<open>\<^verbatim>\<open>MockMultiOnClient\<close>\<close>

definition init_browser :: "'w services \<Rightarrow> ('w, unit) io" where
  "init_browser B =
     bind (page_call (playwright_start B)) (\<lambda>_.
     bind (set_self (\<lambda>c. c\<lparr>playwright := True\<rparr>)) (\<lambda>_.
     bind (page_call (chromium_launch B)) (\<lambda>_.
     bind (set_self (\<lambda>c. c\<lparr>browser := True\<rparr>)) (\<lambda>_.
     bind (page_call (new_page B)) (\<lambda>_.
     set_self (\<lambda>c. c\<lparr>page := True\<rparr>))))))"

definition take_screenshot :: "'w services \<Rightarrow> ('w, string) io" where
  "take_screenshot B =
     bind get_self (\<lambda>c.
       if page c then page_call (page_screenshot B) else return '''')"

text \<open>\<^verbatim>\<open>response.choices[0].message.content.strip()\<close>\<close>
definition read_answer :: "completion \<Rightarrow> py_exception + string" where
  "read_answer response =
     (case py_index (choices response) 0 of
        Inl e \<Rightarrow> Inl e
      | Inr None \<Rightarrow>
          Inl (PyException ''AttributeError''
                (sq # ''NoneType'' @ sq # '' object has no attribute '' @ sq # ''strip'' @ [sq]))
      | Inr (Some text) \<Rightarrow> Inr (py_strip text))"

text \<open>The prompt: the task, the step count, the URL, 1500 characters of the visible text
  and 15 of the interactive elements.\<close>
definition build_prompt :: "string \<Rightarrow> client \<Rightarrow> string \<Rightarrow> element_info list \<Rightarrow> prompt" where
  "build_prompt task c visible_text interactive_elements =
     \<lparr>p_task = task, p_step = step_count c, p_url = current_url c,
      p_visible_text = take 1500 visible_text,
      p_elements = take 15 interactive_elements\<rparr>"

text \<open>\<^verbatim>\<open>determine_action\<close>. The two extraction scripts run before the \<^verbatim>\<open>try\<close>; the call
  of the model and the reading of its answer are inside.\<close>
definition determine_action :: "'w services \<Rightarrow> string \<Rightarrow> string \<Rightarrow> ('w, string) io" where
  "determine_action B task page_text =
     bind (page_call (evaluate_visible_text B)) (\<lambda>visible_text.
     bind (page_call (evaluate_interactive_elements B)) (\<lambda>interactive_elements.
     bind get_self (\<lambda>c.
     try_except
       (bind (model_call (chat_completions_create B
                (build_prompt task c visible_text interactive_elements))) (\<lambda>response.
        bind (lift (read_answer response)) (\<lambda>action.
        if step_count c \<ge> 8 \<and> \<not> py_in ''TASK_COMPLETE'' action
             \<and> \<not> py_in ''TASK_FAILED'' action
        then return ''TASK_COMPLETE''
        else return action)))
       (\<lambda>e. return ''TASK_FAILED''))))"

subsection \<open>\<^verbatim>\<open>execute_action\<close>\<close>

text \<open>The dictionary \<^verbatim>\<open>{"status": ..., "message": ...}\<close> that \<^verbatim>\<open>execute_action\<close> returns.\<close>
record action_result =
  ar_status :: string
  ar_message :: string

text \<open>\<^verbatim>\<open>text.lower()\<close> on what \<^verbatim>\<open>text_content()\<close> gave, which may be \<^verbatim>\<open>None\<close>.\<close>
definition text_lower :: "string option \<Rightarrow> py_exception + string" where
  "text_lower text =
     (case text of
        None \<Rightarrow> Inl (PyException ''AttributeError''
                  (sq # ''NoneType'' @ sq # '' object has no attribute '' @ sq # ''lower'' @ [sq]))
      | Some t \<Rightarrow> Inr (py_lower t))"

text \<open>The loop \<^verbatim>\<open>for button in buttons\<close> (and \<^verbatim>\<open>for link in links\<close>): the first element
  whose text contains the wanted text is clicked and the function returns; \<open>None\<close> is
  falling out of the loop.\<close>
fun click_matching ::
  "'w services \<Rightarrow> string \<Rightarrow> nat \<Rightarrow> string \<Rightarrow> handle list \<Rightarrow> ('w, action_result option) io" where
  "click_matching B label pause wanted [] = return None"
| "click_matching B label pause wanted (h # hs) =
     bind (page_call (text_content B h)) (\<lambda>text.
     bind (lift (text_lower text)) (\<lambda>lowered.
       if py_in (py_lower wanted) lowered
       then bind (page_call (click B h)) (\<lambda>_.
            bind (page_call (wait_for_timeout B pause)) (\<lambda>_.
            return (Some \<lparr>ar_status = ''CONTINUE'', ar_message = label @ wanted\<rparr>)))
       else click_matching B label pause wanted hs))"

text \<open>The fallback: the first element of the selector, if there is one.\<close>
definition click_first ::
  "'w services \<Rightarrow> string \<Rightarrow> nat \<Rightarrow> string \<Rightarrow> ('w, action_result option) io" where
  "click_first B selector pause msg =
     bind (page_call (query_selector B selector)) (\<lambda>found.
       case found of
         Some h \<Rightarrow>
           bind (page_call (click B h)) (\<lambda>_.
           bind (page_call (wait_for_timeout B pause)) (\<lambda>_.
           return (Some \<lparr>ar_status = ''CONTINUE'', ar_message = msg\<rparr>)))
       | None \<Rightarrow> return None)"

text \<open>\<^verbatim>\<open>action.split("'")[1]\<close>: the text after the first single quote, up to the
  second one if there is one.\<close>
definition quoted_text :: "string \<Rightarrow> py_exception + string" where
  "quoted_text action = py_index (py_split action [sq]) 1"

text \<open>The text to look for, when the command has a single quote
  (\<^verbatim>\<open>if "'" in action: button_text = action.split("'")[1]\<close>).\<close>
definition click_target :: "string \<Rightarrow> py_exception + string option" where
  "click_target action =
     (if py_in [sq] action
      then (case quoted_text action of Inl e \<Rightarrow> Inl e | Inr wanted \<Rightarrow> Inr (Some wanted))
      else Inr None)"

definition no_suitable_element :: action_result where
  "no_suitable_element =
     \<lparr>ar_status = ''CONTINUE'', ar_message = ''No suitable element found to click''\<rparr>"

text \<open>The body of \<^verbatim>\<open>if "button" in action.lower()\<close> once the text is known, and that of
  the branch for links, which differs in the selector, the messages and the pause only:
  the elements are searched for the text, the first element is the fallback, and without
  any element the function falls through to its last \<^verbatim>\<open>return\<close>.\<close>
definition click_element ::
  "'w services \<Rightarrow> string \<Rightarrow> string \<Rightarrow> nat \<Rightarrow> string \<Rightarrow> string option \<Rightarrow> ('w, action_result) io" where
  "click_element B selector label pause first_msg target =
     bind (case target of
             Some wanted \<Rightarrow>
               bind (page_call (query_selector_all B selector)) (\<lambda>elements.
               click_matching B label pause wanted elements)
           | None \<Rightarrow> return None) (\<lambda>clicked.
     case clicked of
       Some r \<Rightarrow> return r
     | None \<Rightarrow>
         bind (click_first B selector pause first_msg) (\<lambda>clicked.
         case clicked of
           Some r \<Rightarrow> return r
         | None \<Rightarrow> return no_suitable_element))"

definition click_button :: "'w services \<Rightarrow> string option \<Rightarrow> ('w, action_result) io" where
  "click_button B target =
     click_element B ''button'' ''Clicked button: '' 2000 ''Clicked first button'' target"

definition click_link :: "'w services \<Rightarrow> string option \<Rightarrow> ('w, action_result) io" where
  "click_link B target =
     click_element B ''a'' ''Clicked link: '' 3000 ''Clicked first link'' target"

definition click_branch :: "'w services \<Rightarrow> string \<Rightarrow> ('w, action_result) io" where
  "click_branch B action =
     (if py_in ''button'' (py_lower action)
      then bind (lift (click_target action)) (click_button B)
      else if py_in ''link'' (py_lower action)
      then bind (lift (click_target action)) (click_link B)
      else return no_suitable_element)"

text \<open>The list \<^verbatim>\<open>selectors\<close> of the fill command.\<close>
definition fill_selectors :: "string \<Rightarrow> string list" where
  "fill_selectors field_name =
     [''input[name='' @ sq # field_name @ sq # '']'',
      ''input[id='' @ sq # field_name @ sq # '']'',
      ''input[type='' @ sq # field_name @ sq # '']'',
      (if field_name = ''email'' then ''input[type='' @ sq # ''email'' @ sq # '']'' else []),
      (if field_name \<in> set [''text'', ''name''] then ''input[type='' @ sq # ''text'' @ sq # '']'' else [])]"

text \<open>The loop \<^verbatim>\<open>for selector in selectors\<close>.\<close>
fun fill_first_match ::
  "'w services \<Rightarrow> string \<Rightarrow> string \<Rightarrow> string list \<Rightarrow> ('w, action_result option) io" where
  "fill_first_match B field_name v [] = return None"
| "fill_first_match B field_name v (selector # rest) =
     (if selector \<noteq> []
      then bind (page_call (query_selector B selector)) (\<lambda>element.
             case element of
               Some h \<Rightarrow>
                 bind (page_call (fill B h v)) (\<lambda>_.
                 bind (page_call (wait_for_timeout B 1000)) (\<lambda>_.
                 return (Some \<lparr>ar_status = ''CONTINUE'',
                                ar_message = ''Filled '' @ field_name @ '' with '' @ v\<rparr>)))
             | None \<Rightarrow> fill_first_match B field_name v rest)
      else fill_first_match B field_name v rest)"

definition generic_input_selector :: string where
  "generic_input_selector =
     ''input[type='' @ sq # ''text'' @ sq # ''], input[type='' @ sq # ''email'' @ sq # ''], textarea''"

definition could_not_parse :: action_result where
  "could_not_parse =
     \<lparr>ar_status = ''CONTINUE'', ar_message = ''Could not parse fill command''\<rparr>"

text \<open>The body of \<^verbatim>\<open>if len(parts) >= 3\<close>, for the field name and the value: the
  selectors in order, then the first generic input; without any the function falls through
  to its last \<^verbatim>\<open>return\<close>.\<close>
definition fill_field :: "'w services \<Rightarrow> string \<Rightarrow> string \<Rightarrow> ('w, action_result) io" where
  "fill_field B field_name v =
     bind (fill_first_match B field_name v (fill_selectors field_name)) (\<lambda>filled.
       case filled of
         Some r \<Rightarrow> return r
       | None \<Rightarrow>
           bind (page_call (query_selector B generic_input_selector)) (\<lambda>input_field.
             case input_field of
               Some h \<Rightarrow>
                 bind (page_call (fill B h v)) (\<lambda>_.
                 bind (page_call (wait_for_timeout B 1000)) (\<lambda>_.
                 return \<lparr>ar_status = ''CONTINUE'',
                          ar_message = ''Filled field with '' @ v\<rparr>))
             | None \<Rightarrow> return could_not_parse))"

definition fill_branch :: "'w services \<Rightarrow> string \<Rightarrow> ('w, action_result) io" where
  "fill_branch B action =
     (let parts = py_split_ws action in
      if length parts \<ge> 3
      then bind (lift (py_index parts 1)) (\<lambda>field_name.
           fill_field B field_name (py_join '' '' (drop 2 parts)))
      else return could_not_parse)"

text \<open>The destination of a navigate command:
  \<^verbatim>\<open>url = action.split("http")[1]; if not url.startswith("://"): url = "http" + url\<close>.\<close>
definition navigate_url :: "string \<Rightarrow> py_exception + string" where
  "navigate_url action =
     (case py_index (py_split action ''http'') 1 of
        Inl e \<Rightarrow> Inl e
      | Inr url \<Rightarrow> Inr (if \<not> py_startswith url ''://'' then ''http'' @ url else url))"

text \<open>The body of \<^verbatim>\<open>if "http" in action\<close>, from the call of \<^verbatim>\<open>goto\<close> on.\<close>
definition navigate_to :: "'w services \<Rightarrow> string \<Rightarrow> ('w, action_result) io" where
  "navigate_to B url =
     bind (page_call (goto B url)) (\<lambda>_.
     bind (page_call (wait_for_timeout B 3000)) (\<lambda>_.
     bind (set_self (\<lambda>c. c\<lparr>current_url := Some url\<rparr>)) (\<lambda>_.
     return \<lparr>ar_status = ''CONTINUE'', ar_message = ''Navigated to '' @ url\<rparr>)))"

definition navigate_branch :: "'w services \<Rightarrow> string \<Rightarrow> ('w, action_result) io" where
  "navigate_branch B action =
     (if py_in ''http'' action
      then bind (lift (navigate_url action)) (\<lambda>url. navigate_to B url)
      else return \<lparr>ar_status = ''CONTINUE'', ar_message = ''Invalid navigation URL''\<rparr>)"

definition search_selector :: string where
  "search_selector =
     ''input[type='' @ sq # ''search'' @ sq # ''], input[name*='' @ sq # ''search'' @ sq #
     ''], input[placeholder*='' @ sq # ''search'' @ sq # '']''"

definition search_branch :: "'w services \<Rightarrow> string \<Rightarrow> ('w, action_result) io" where
  "search_branch B action =
     (let search_text = py_strip (drop 6 action) in
      bind (page_call (query_selector B search_selector)) (\<lambda>search_input.
        case search_input of
          Some h \<Rightarrow>
            bind (page_call (fill B h search_text)) (\<lambda>_.
            bind (page_call (keyboard_press B ''Enter'')) (\<lambda>_.
            bind (page_call (wait_for_timeout B 3000)) (\<lambda>_.
            return \<lparr>ar_status = ''CONTINUE'', ar_message = ''Searched for: '' @ search_text\<rparr>)))
        | None \<Rightarrow>
            bind (page_call (evaluate_scroll_by B 300)) (\<lambda>_.
            bind (page_call (wait_for_timeout B 1000)) (\<lambda>_.
            return \<lparr>ar_status = ''CONTINUE'', ar_message = ''Looking for: '' @ search_text\<rparr>))))"

definition scroll_branch :: "'w services \<Rightarrow> ('w, action_result) io" where
  "scroll_branch B =
     bind (page_call (evaluate_scroll_by B 500)) (\<lambda>_.
     bind (page_call (wait_for_timeout B 2000)) (\<lambda>_.
     return \<lparr>ar_status = ''CONTINUE'',
             ar_message = ''Scrolled down to explore more content''\<rparr>))"

definition unknown_branch :: "'w services \<Rightarrow> string \<Rightarrow> ('w, action_result) io" where
  "unknown_branch B action =
     bind get_self (\<lambda>c.
       if step_count c \<le> 3
       then bind (page_call (evaluate_scroll_by B 400)) (\<lambda>_.
            bind (page_call (wait_for_timeout B 1500)) (\<lambda>_.
            return \<lparr>ar_status = ''CONTINUE'', ar_message = ''Exploring page: '' @ action\<rparr>))
       else bind (page_call (wait_for_timeout B 1000)) (\<lambda>_.
            return \<lparr>ar_status = ''CONTINUE'', ar_message = ''Executed: '' @ action\<rparr>))"

text \<open>The handler of each \<^verbatim>\<open>except Exception as e\<close> of \<^verbatim>\<open>execute_action\<close>.\<close>
definition failed_with :: "string \<Rightarrow> py_exception \<Rightarrow> ('w, action_result) io" where
  "failed_with what e = return \<lparr>ar_status = ''ERROR'', ar_message = what @ exc_str e\<rparr>"

definition execute_action :: "'w services \<Rightarrow> string \<Rightarrow> ('w, action_result) io" where
  "execute_action B action =
     try_except
       (let action_upper = py_upper action in
        if py_in ''TASK_COMPLETE'' action_upper
        then return \<lparr>ar_status = ''COMPLETE'', ar_message = ''Task completed successfully''\<rparr>
        else if py_in ''TASK_FAILED'' action_upper
        then return \<lparr>ar_status = ''FAILED'', ar_message = ''Task failed - could not complete''\<rparr>
        else if py_startswith action_upper ''CLICK''
        then try_except (click_branch B action) (failed_with ''Click failed: '')
        else if py_startswith action_upper ''FILL''
        then try_except (fill_branch B action) (failed_with ''Fill failed: '')
        else if py_startswith action_upper ''SCROLL''
        then scroll_branch B
        else if py_startswith action_upper ''NAVIGATE''
        then try_except (navigate_branch B action) (failed_with ''Navigation failed: '')
        else if py_startswith action_upper ''SEARCH''
        then try_except (search_branch B action) (failed_with ''Search failed: '')
        else unknown_branch B action)
       (failed_with ''Action execution failed: '')"

subsection \<open>Sessions and tasks\<close>

text \<open>The dictionary \<^verbatim>\<open>create_session\<close> returns.\<close>
record session_info =
  si_session_id :: "string option"
  si_url :: "string option"
  si_screenshot :: "string option"
  si_status :: string

text \<open>\<^verbatim>\<open>f"session_{int(time.time())}"\<close>; the service gives the clock reading in digits.\<close>
definition new_session_id :: "'w services \<Rightarrow> ('w, string) io" where
  "new_session_id B = (\<lambda>m. (Inr (''session_'' @ time_now B (world m)), m))"

definition create_session :: "'w services \<Rightarrow> string \<Rightarrow> ('w, session_info) io" where
  "create_session B url =
     bind get_self (\<lambda>c.
     bind (if \<not> page c then init_browser B else return ()) (\<lambda>_.
     bind (page_call (goto B url)) (\<lambda>_.
     bind (page_call (wait_for_timeout B 2000)) (\<lambda>_.
     bind (new_session_id B) (\<lambda>sid.
     bind (set_self (\<lambda>c. c\<lparr>session_id := Some sid, current_url := Some url\<rparr>)) (\<lambda>_.
     bind (take_screenshot B) (\<lambda>shot.
     bind (set_self (\<lambda>c. c\<lparr>screenshot := Some shot\<rparr>)) (\<lambda>_.
     bind get_self (\<lambda>c.
     return \<lparr>si_session_id = session_id c, si_url = current_url c,
             si_screenshot = screenshot c, si_status = ''CONTINUE''\<rparr>)))))))))"

text \<open>The dictionary \<^verbatim>\<open>execute_task\<close> returns.\<close>
record task_result =
  tr_step :: nat
  tr_action :: string
  tr_url :: "string option"
  tr_screenshot :: string
  tr_status :: string
  tr_message :: string

definition execute_task :: "'w services \<Rightarrow> string \<Rightarrow> ('w, task_result) io" where
  "execute_task B task =
     bind get_self (\<lambda>c.
     bind (if \<not> page c
           then raise (PyException ''ValueError'' ''No active session. Call create_session first.'')
           else return ()) (\<lambda>_.
     bind (take_screenshot B) (\<lambda>_.
     bind (page_call (page_content B)) (\<lambda>page_text.
     bind (determine_action B task page_text) (\<lambda>action.
     bind (execute_action B action) (\<lambda>result.
     bind (set_self (\<lambda>c. c\<lparr>step_count := step_count c + 1\<rparr>)) (\<lambda>_.
     bind get_self (\<lambda>c.
     bind (take_screenshot B) (\<lambda>shot.
     return \<lparr>tr_step = step_count c, tr_action = action, tr_url = current_url c,
             tr_screenshot = shot, tr_status = ar_status result,
             tr_message = ar_message result\<rparr>)))))))))"

definition close_session :: "'w services \<Rightarrow> ('w, unit) io" where
  "close_session B =
     bind get_self (\<lambda>c.
     bind (if browser c then page_call (browser_close B) else return ()) (\<lambda>_.
     bind (if playwright c then page_call (playwright_stop B) else return ()) (\<lambda>_.
     set_self (\<lambda>c. c\<lparr>playwright := False, browser := False, page := False\<rparr>))))"

subsection \<open>\<^verbatim>\<open>autonomous_process\<close>\<close>

text \<open>An entry of the list \<^verbatim>\<open>steps\<close>.\<close>
record step_record =
  step_number :: int
  sr_action :: string
  sr_status :: string
  sr_screenshot :: "string option"
  sr_message :: string

text \<open>
  The variables of the loop. \<open>history\<close> is a ghost variable: what \<^verbatim>\<open>execute_task\<close>
  returned or raised in each iteration so far, in order.
\<close>
record loop_state =
  steps :: "step_record list"
  step :: int
  status :: string
  last_action :: string
  repeated_actions :: nat
  history :: "(py_exception + task_result) list"

text \<open>The check for repeated actions: the result (with the status and the message it may
  overwrite), \<^verbatim>\<open>last_action\<close> and \<^verbatim>\<open>repeated_actions\<close> after it.\<close>
definition repetition_check ::
  "task_result \<Rightarrow> string \<Rightarrow> nat \<Rightarrow> task_result \<times> string \<times> nat" where
  "repetition_check result previous repeated =
     (if tr_action result = previous
      then (let repeated = repeated + 1 in
            if repeated \<ge> 3 \<and> \<not> py_in ''SCROLL'' (tr_action result)
            then (result\<lparr>tr_status := ''COMPLETE'',
                         tr_message := ''Stopping due to repeated actions''\<rparr>, previous, repeated)
            else if repeated \<ge> 4 \<and> py_in ''SCROLL'' (tr_action result)
            then (result\<lparr>tr_status := ''COMPLETE'',
                         tr_message := ''Finished exploring page content''\<rparr>, previous, repeated)
            else (result, previous, repeated))
      else (result, tr_action result, 0))"

text \<open>The entry appended to \<^verbatim>\<open>steps\<close> after \<^verbatim>\<open>execute_task\<close> returned.\<close>
definition result_record :: "int \<Rightarrow> task_result \<Rightarrow> step_record" where
  "result_record n result =
     \<lparr>step_number = n, sr_action = tr_action result, sr_status = tr_status result,
      sr_screenshot = Some (tr_screenshot result), sr_message = tr_message result\<rparr>"

text \<open>The entry appended by the handler of the loop's \<^verbatim>\<open>except Exception as e\<close>.\<close>
definition error_record :: "int \<Rightarrow> py_exception \<Rightarrow> step_record" where
  "error_record n e =
     \<lparr>step_number = n, sr_action = ''ERROR'', sr_status = ''ERROR'',
      sr_screenshot = Some [], sr_message = ''Error: '' @ exc_str e\<rparr>"

text \<open>One run of the body of the \<^verbatim>\<open>while\<close> loop: the loop variables after it, and whether
  it left the loop by \<^verbatim>\<open>break\<close>. (\<^verbatim>\<open>asyncio.sleep(2)\<close> only delays.)\<close>
definition loop_body :: "'w services \<Rightarrow> string \<Rightarrow> loop_state \<Rightarrow> ('w, loop_state \<times> bool) io" where
  "loop_body B task ls =
     try_except
       (bind (execute_task B task) (\<lambda>returned.
          case repetition_check returned (last_action ls) (repeated_actions ls) of
            (result, previous, repeated) \<Rightarrow>
              return
                (ls\<lparr>steps := steps ls @ [result_record (step ls) result],
                     step := step ls + 1,
                     status := tr_status result,
                     last_action := previous,
                     repeated_actions := repeated,
                     history := history ls @ [Inr returned]\<rparr>,
                 tr_status result \<in> set [''COMPLETE'', ''FAILED'', ''ERROR''])))
       (\<lambda>e. return
          (ls\<lparr>steps := steps ls @ [error_record (step ls) e],
               status := ''ERROR'',
               history := history ls @ [Inl e]\<rparr>,
           True))"

text \<open>\<^verbatim>\<open>while status == "CONTINUE" and step <= max_steps\<close>\<close>
function autonomous_loop ::
  "'w services \<Rightarrow> string \<Rightarrow> int \<Rightarrow> loop_state \<Rightarrow> ('w, loop_state) io" where
  "autonomous_loop B task max_steps ls m =
     (if status ls = ''CONTINUE'' \<and> step ls \<le> max_steps
      then (case loop_body B task ls m of
              (Inl e, m') \<Rightarrow> (Inl e, m')
            | (Inr (ls', left), m') \<Rightarrow>
                if left then (Inr ls', m') else autonomous_loop B task max_steps ls' m')
      else (Inr ls, m))"
  by pat_completeness auto
termination
proof (relation "measure (\<lambda>(B, task, max_steps, ls, m). nat (max_steps + 1 - step ls))")
  show "wf (measure (\<lambda>(B :: 'w services, task :: string, max_steps :: int, ls :: loop_state,
                       m :: 'w machine). nat (max_steps + 1 - step ls)))"
    by simp
next
  fix B :: "'w services" and task max_steps ls and m :: "'w machine" and x1 m' x1a ls' left
  assume "status ls = ''CONTINUE'' \<and> step ls \<le> max_steps"
    and "(x1, m') = loop_body B task ls m" and "x1 = Inr x1a"
    and "(ls', left) = x1a" and "\<not> left"
  then have run: "loop_body B task ls m = (Inr (ls', False), m')"
    and le: "step ls \<le> max_steps"
    by simp_all
  from run have "step ls' = step ls + 1"
    by (auto simp: loop_body_def try_except_def bind_def return_def
             split: prod.splits sum.splits)
  with le show "((B, task, max_steps, ls', m'), (B, task, max_steps, ls, m))
        \<in> measure (\<lambda>(B, task, max_steps, ls, m). nat (max_steps + 1 - step ls))"
    by simp
qed

text \<open>The loop variables at the first test of the \<^verbatim>\<open>while\<close> condition: the trace holds the
  record of the started session.\<close>
definition initial_loop_state :: "string \<Rightarrow> session_info \<Rightarrow> loop_state" where
  "initial_loop_state url session =
     \<lparr>steps = [\<lparr>step_number = 0, sr_action = ''Started session on '' @ url,
                sr_status = ''CONTINUE'', sr_screenshot = si_screenshot session,
                sr_message = ''Session initialized''\<rparr>],
      step = 1, status = ''CONTINUE'', last_action = [], repeated_actions = 0,
      history = []\<rparr>"

text \<open>The statements of the outer \<^verbatim>\<open>try\<close> up to the end of the loop.\<close>
definition autonomous_session ::
  "'w services \<Rightarrow> string \<Rightarrow> string \<Rightarrow> int \<Rightarrow> ('w, loop_state) io" where
  "autonomous_session B url task max_steps =
     bind (create_session B url) (\<lambda>session.
     autonomous_loop B task max_steps (initial_loop_state url session))"

text \<open>The two dictionaries \<^verbatim>\<open>autonomous_process\<close> can return.\<close>
record autonomous_result =
  res_task :: string
  res_url :: string
  res_steps :: "step_record list"
  final_status :: string
  total_steps :: int

datatype reply = Success autonomous_result | Failure string

text \<open>\<^verbatim>\<open>try: f  finally: g\<close>\<close>
definition try_finally :: "('w, 'a) io \<Rightarrow> ('w, unit) io \<Rightarrow> ('w, 'a) io" where
  "try_finally f g =
     (\<lambda>m. case f m of (r, m') \<Rightarrow>
        (case g m' of (Inl e, m'') \<Rightarrow> (Inl e, m'') | (Inr _, m'') \<Rightarrow> (r, m'')))"

definition new_client :: client where
  "new_client = \<lparr>playwright = False, browser = False, page = False, session_id = None,
                 current_url = None, screenshot = None, step_count = 0\<rparr>"

text \<open>\<^verbatim>\<open>autonomous_process\<close>, on a client of its own. (The API key only configures the
  language-model service, which is part of \<open>B\<close>.)\<close>
definition autonomous_process ::
  "'w services \<Rightarrow> string \<Rightarrow> string \<Rightarrow> int \<Rightarrow> ('w, reply) io" where
  "autonomous_process B url task max_steps =
     bind (set_self (\<lambda>_. new_client)) (\<lambda>_.
     try_finally
       (try_except
          (bind (autonomous_session B url task max_steps) (\<lambda>ls.
           return (Success \<lparr>res_task = task, res_url = url, res_steps = steps ls,
                            final_status = status ls,
                            total_steps = int (length (steps ls)) - 1\<rparr>)))
          (\<lambda>e. return (Failure (exc_str e))))
       (close_session B))"

subsection \<open>A scripted world\<close>

text \<open>
  A world for closed examples: its state is the list of answers the language model will
  still give. Every browser operation succeeds; the page has no element at all.
\<close>
definition scripted :: "string list services" where
  "scripted =
     \<lparr>playwright_start = (\<lambda>w. (Inr (), w)),
      chromium_launch = (\<lambda>w. (Inr (), w)),
      new_page = (\<lambda>w. (Inr (), w)),
      goto = (\<lambda>url w. (Inr (), w)),
      wait_for_timeout = (\<lambda>ms w. (Inr (), w)),
      page_screenshot = (\<lambda>w. (Inr ''png'', w)),
      page_content = (\<lambda>w. (Inr ''<html></html>'', w)),
      evaluate_visible_text = (\<lambda>w. (Inr [], w)),
      evaluate_interactive_elements = (\<lambda>w. (Inr [], w)),
      evaluate_scroll_by = (\<lambda>px w. (Inr (), w)),
      query_selector_all = (\<lambda>selector w. (Inr [], w)),
      query_selector = (\<lambda>selector w. (Inr None, w)),
      text_content = (\<lambda>h w. (Inr None, w)),
      click = (\<lambda>h w. (Inr (), w)),
      fill = (\<lambda>h v w. (Inr (), w)),
      keyboard_press = (\<lambda>key w. (Inr (), w)),
      browser_close = (\<lambda>w. (Inr (), w)),
      playwright_stop = (\<lambda>w. (Inr (), w)),
      time_now = (\<lambda>w. ''0''),
      chat_completions_create = (\<lambda>p w.
        case w of
          [] \<Rightarrow> (Inl (PyException ''APIConnectionError'' ''Connection error.''), w)
        | answer # rest \<Rightarrow> (Inr \<lparr>choices = [Some answer]\<rparr>, rest))\<rparr>"

definition timeout_error :: py_exception where
  "timeout_error = PyException ''TimeoutError'' ''Timeout 30000ms exceeded.''"

definition page_closed :: py_exception where
  "page_closed = PyException ''TargetClosedError'' ''Target page, context or browser has been closed''"

text \<open>The scripted world with a host that cannot be reached, and with a page that is lost
  once the model has given its last answer.\<close>
definition flaky :: "string list services" where
  "flaky = scripted
     \<lparr>goto := (\<lambda>url w. if url = ''https://down.example'' then (Inl timeout_error, w)
                          else (Inr (), w)),
      page_content := (\<lambda>w. if w = [] then (Inl page_closed, w)
                             else (Inr ''<html></html>'', w))\<rparr>"

definition driver_gone :: py_exception where
  "driver_gone = PyException ''Error'' ''Connection closed while reading from the driver''"

text \<open>The world \<open>flaky\<close> with a browser that cannot be closed.\<close>
definition unclosable :: "string list services" where
  "unclosable = flaky\<lparr>browser_close := (\<lambda>w. (Inl driver_gone, w))\<rparr>"

text \<open>A client with an open page, after \<open>n\<close> steps, in a world with the given answers.\<close>
definition running :: "nat \<Rightarrow> 'w \<Rightarrow> 'w machine" where
  "running n w =
     \<lparr>self = new_client\<lparr>playwright := True, browser := True, page := True,
                         current_url := Some ''https://example.com'', step_count := n\<rparr>,
      world = w, faults = []\<rparr>"

text \<open>The machine before \<^verbatim>\<open>autonomous_process\<close> is called.\<close>
definition idle :: "'w \<Rightarrow> 'w machine" where
  "idle w = \<lparr>self = new_client, world = w, faults = []\<rparr>"

text \<open>What \<^verbatim>\<open>autonomous_process\<close> returns in the scripted world when the model answers
  \<^verbatim>\<open>SCROLL\<close>, then \<^verbatim>\<open>TASK_COMPLETE\<close>.\<close>
definition demo_result :: autonomous_result where
  "demo_result = \<lparr>res_task = ''find the pricing link'', res_url = ''https://example.com'', res_steps = [
     \<lparr>step_number = 0, sr_action = ''Started session on https://example.com'', sr_status = ''CONTINUE'', sr_screenshot = Some ''png'', sr_message = ''Session initialized''\<rparr>,
     \<lparr>step_number = 1, sr_action = ''SCROLL'', sr_status = ''CONTINUE'', sr_screenshot = Some ''png'', sr_message = ''Scrolled down to explore more content''\<rparr>,
     \<lparr>step_number = 2, sr_action = ''TASK_COMPLETE'', sr_status = ''COMPLETE'', sr_screenshot = Some ''png'', sr_message = ''Task completed successfully''\<rparr>],
     final_status = ''COMPLETE'', total_steps = 2\<rparr>"

text \<open>The session \<^verbatim>\<open>create_session\<close> returns in the scripted worlds.\<close>
definition demo_session :: session_info where
  "demo_session = \<lparr>si_session_id = Some ''session_0'', si_url = Some ''https://example.com'',
     si_screenshot = Some ''png'', si_status = ''CONTINUE''\<rparr>"

text \<open>What \<^verbatim>\<open>autonomous_process\<close> returns in the world \<open>flaky\<close> when the model answers
  \<^verbatim>\<open>SCROLL\<close> once: the page is lost in the second iteration.\<close>
definition lost_page_result :: autonomous_result where
  "lost_page_result = \<lparr>res_task = ''find the pricing link'', res_url = ''https://example.com'', res_steps = [
     \<lparr>step_number = 0, sr_action = ''Started session on https://example.com'', sr_status = ''CONTINUE'', sr_screenshot = Some ''png'', sr_message = ''Session initialized''\<rparr>,
     \<lparr>step_number = 1, sr_action = ''SCROLL'', sr_status = ''CONTINUE'', sr_screenshot = Some ''png'', sr_message = ''Scrolled down to explore more content''\<rparr>,
     \<lparr>step_number = 2, sr_action = ''ERROR'', sr_status = ''ERROR'', sr_screenshot = Some [], sr_message = ''Error: Target page, context or browser has been closed''\<rparr>],
     final_status = ''ERROR'', total_steps = 2\<rparr>"

text \<open>A client with an open page before its first step, in a scripted world where the
  model has no answer left.\<close>
definition ready :: "string list machine" where
  "ready = running 0 []"

text \<open>The result \<^verbatim>\<open>execute_task\<close> returns in the scripted world at step \<open>n\<close>, for a directive
  and the message of its execution.\<close>
definition returned :: "nat \<Rightarrow> string \<Rightarrow> string \<Rightarrow> task_result" where
  "returned n directive msg =
     \<lparr>tr_step = n, tr_action = directive, tr_url = Some ''https://example.com'',
      tr_screenshot = ''png'', tr_status = ''CONTINUE'', tr_message = msg\<rparr>"

text \<open>An entry of the trace in the scripted world.\<close>
definition entry :: "int \<Rightarrow> string \<Rightarrow> string \<Rightarrow> string \<Rightarrow> step_record" where
  "entry n directive st msg =
     \<lparr>step_number = n, sr_action = directive, sr_status = st, sr_screenshot = Some ''png'',
      sr_message = msg\<rparr>"

definition session_started :: step_record where
  "session_started =
     entry 0 ''Started session on https://example.com'' ''CONTINUE'' ''Session initialized''"

text \<open>The loop variables after the model answered \<^verbatim>\<open>CLICK link next\<close> four times.\<close>
definition stalled :: loop_state where
  "stalled =
     \<lparr>steps = [session_started,
        entry 1 ''CLICK link next'' ''CONTINUE'' ''No suitable element found to click'',
        entry 2 ''CLICK link next'' ''CONTINUE'' ''No suitable element found to click'',
        entry 3 ''CLICK link next'' ''CONTINUE'' ''No suitable element found to click'',
        entry 4 ''CLICK link next'' ''COMPLETE'' ''Stopping due to repeated actions''],
      step = 5, status = ''COMPLETE'', last_action = ''CLICK link next'', repeated_actions = 3,
      history = [
        Inr (returned 1 ''CLICK link next'' ''No suitable element found to click''),
        Inr (returned 2 ''CLICK link next'' ''No suitable element found to click''),
        Inr (returned 3 ''CLICK link next'' ''No suitable element found to click''),
        Inr (returned 4 ''CLICK link next'' ''No suitable element found to click'')]\<rparr>"

text \<open>The loop variables after the model answered \<^verbatim>\<open>SCROLL\<close> five times.\<close>
definition scrolled :: loop_state where
  "scrolled =
     \<lparr>steps = [session_started,
        entry 1 ''SCROLL'' ''CONTINUE'' ''Scrolled down to explore more content'',
        entry 2 ''SCROLL'' ''CONTINUE'' ''Scrolled down to explore more content'',
        entry 3 ''SCROLL'' ''CONTINUE'' ''Scrolled down to explore more content'',
        entry 4 ''SCROLL'' ''CONTINUE'' ''Scrolled down to explore more content'',
        entry 5 ''SCROLL'' ''COMPLETE'' ''Finished exploring page content''],
      step = 6, status = ''COMPLETE'', last_action = ''SCROLL'', repeated_actions = 4,
      history = [
        Inr (returned 1 ''SCROLL'' ''Scrolled down to explore more content''),
        Inr (returned 2 ''SCROLL'' ''Scrolled down to explore more content''),
        Inr (returned 3 ''SCROLL'' ''Scrolled down to explore more content''),
        Inr (returned 4 ''SCROLL'' ''Scrolled down to explore more content''),
        Inr (returned 5 ''SCROLL'' ''Scrolled down to explore more content'')]\<rparr>"

text \<open>A click command whose quoted text has the word \<^verbatim>\<open>SCROLL\<close>:
  \<^verbatim>\<open>CLICK button 'SCROLL DOWN'\<close>.\<close>
definition click_scroll_down :: string where
  "click_scroll_down = ''CLICK button '' @ sq # ''SCROLL DOWN'' @ [sq]"

text \<open>What \<^verbatim>\<open>autonomous_process\<close> returns, with four steps allowed, when the model answers
  that click command four times.\<close>
definition click_scroll_down_result :: autonomous_result where
  "click_scroll_down_result =
     \<lparr>res_task = ''find the pricing link'', res_url = ''https://example.com'',
      res_steps = [session_started,
        entry 1 click_scroll_down ''CONTINUE'' ''No suitable element found to click'',
        entry 2 click_scroll_down ''CONTINUE'' ''No suitable element found to click'',
        entry 3 click_scroll_down ''CONTINUE'' ''No suitable element found to click'',
        entry 4 click_scroll_down ''CONTINUE'' ''No suitable element found to click''],
      final_status = ''CONTINUE'', total_steps = 4\<rparr>"

text \<open>What it returns, with five steps allowed, when the model answers \<^verbatim>\<open>scroll\<close> in lower
  case every time.\<close>
definition lowercase_scroll_result :: autonomous_result where
  "lowercase_scroll_result =
     \<lparr>res_task = ''find the pricing link'', res_url = ''https://example.com'',
      res_steps = [session_started,
        entry 1 ''scroll'' ''CONTINUE'' ''Scrolled down to explore more content'',
        entry 2 ''scroll'' ''CONTINUE'' ''Scrolled down to explore more content'',
        entry 3 ''scroll'' ''CONTINUE'' ''Scrolled down to explore more content'',
        entry 4 ''scroll'' ''COMPLETE'' ''Stopping due to repeated actions''],
      final_status = ''COMPLETE'', total_steps = 4\<rparr>"

text \<open>The loop variables in the world \<open>flaky\<close> after the model answered \<^verbatim>\<open>SCROLL\<close> once
  and the page was lost in the second iteration.\<close>
definition page_lost :: loop_state where
  "page_lost =
     \<lparr>steps = [session_started,
        entry 1 ''SCROLL'' ''CONTINUE'' ''Scrolled down to explore more content'',
        \<lparr>step_number = 2, sr_action = ''ERROR'', sr_status = ''ERROR'', sr_screenshot = Some [],
         sr_message = ''Error: Target page, context or browser has been closed''\<rparr>],
      step = 2, status = ''ERROR'', last_action = ''SCROLL'', repeated_actions = 0,
      history = [
        Inr (returned 1 ''SCROLL'' ''Scrolled down to explore more content''),
        Inl page_closed]\<rparr>"

subsection \<open>Notions used in the proofs\<close>

text \<open>
  What a computation does to the log of faults: \<open>clean\<close> computations return without a
  fault, or raise after at most one; \<open>guarded\<close> ones never raise, and report a fault in
  their result.
\<close>

definition continues :: "action_result \<Rightarrow> bool" where
  "continues r = (ar_status r = ''CONTINUE'')"

definition may_continue :: "action_result option \<Rightarrow> bool" where
  "may_continue r = (case r of None \<Rightarrow> True | Some x \<Rightarrow> continues x)"

definition settled :: "action_result \<Rightarrow> bool" where
  "settled r = (ar_status r \<in> set [''CONTINUE'', ''COMPLETE'', ''FAILED''])"

definition fault_free :: "'w machine \<Rightarrow> 'w machine \<Rightarrow> bool" where
  "fault_free m m' = (faults m' = faults m)"

definition one_fault :: "'w machine \<Rightarrow> py_exception \<Rightarrow> 'w machine \<Rightarrow> bool" where
  "one_fault m e m' = (faults m' = faults m \<or> faults m' = faults m @ [e])"

definition clean :: "('a \<Rightarrow> bool) \<Rightarrow> ('w, 'a) io \<Rightarrow> bool" where
  "clean P f =
     (\<forall>m r m'. f m = (r, m') \<longrightarrow>
        (case r of Inr x \<Rightarrow> fault_free m m' \<and> P x | Inl e \<Rightarrow> one_fault m e m'))"

definition contained_result :: "'w machine \<Rightarrow> action_result \<Rightarrow> 'w machine \<Rightarrow> bool" where
  "contained_result m r m' =
     ((fault_free m m' \<and> settled r)
      \<or> (ar_status r = ''ERROR'' \<and> (\<exists>what e. ar_message r = what @ exc_str e \<and> one_fault m e m')))"

definition contained :: "('w, action_result) io \<Rightarrow> bool" where
  "contained f =
     (\<forall>m r m'. f m = (r, m') \<longrightarrow>
        (case r of Inr x \<Rightarrow> contained_result m x m' | Inl e \<Rightarrow> one_fault m e m'))"

definition guarded :: "('w, action_result) io \<Rightarrow> bool" where
  "guarded f =
     (\<forall>m r m'. f m = (r, m') \<longrightarrow>
        (case r of Inr x \<Rightarrow> contained_result m x m' | Inl e \<Rightarrow> False))"

text \<open>
  The directives of a run, read from the ghost history: \<open>directive_at h k\<close> is the text
  \<^verbatim>\<open>execute_task\<close> returned in iteration \<open>k\<close> (counted from 0), if it returned one.
\<close>
definition directive_at :: "(py_exception + task_result) list \<Rightarrow> nat \<Rightarrow> string option" where
  "directive_at h k =
     (if k < length h
      then (case h ! k of Inr r \<Rightarrow> Some (tr_action r) | Inl e \<Rightarrow> None)
      else None)"

text \<open>What the check for repeated actions does to \<^verbatim>\<open>last_action\<close> and
  \<^verbatim>\<open>repeated_actions\<close>, and their values after a list of directives.\<close>
definition count_step :: "string \<times> nat \<Rightarrow> string \<Rightarrow> string \<times> nat" where
  "count_step c action =
     (if action = fst c then (fst c, snd c + 1) else (action, 0))"

definition tally :: "string list \<Rightarrow> string \<times> nat" where
  "tally actions = foldl count_step ([], 0) actions"

definition action_of :: "py_exception + task_result \<Rightarrow> string" where
  "action_of x = (case x of Inr r \<Rightarrow> tr_action r | Inl e \<Rightarrow> [])"

text \<open>The record of an iteration, from the history before it.\<close>
definition recorded :: "(py_exception + task_result) list \<Rightarrow> nat \<Rightarrow> task_result \<Rightarrow> step_record" where
  "recorded h k ret =
     result_record (int k + 1)
       (fst (repetition_check ret (fst (tally (map action_of (take k h))))
                                  (snd (tally (map action_of (take k h))))))"

text \<open>The trace follows the history: every returned result is recorded as the check for
  repeated actions leaves it, and only the last iteration can have raised.\<close>
definition follows :: "loop_state \<Rightarrow> bool" where
  "follows ls =
     (length (steps ls) = length (history ls) + 1
      \<and> (\<forall>k ret. k < length (history ls) \<and> history ls ! k = Inr ret \<longrightarrow>
            steps ls ! (k + 1) = recorded (history ls) k ret)
      \<and> (\<forall>k. Suc k < length (history ls) \<longrightarrow> (\<exists>r. history ls ! k = Inr r)))"

text \<open>The invariant of the loop for \<open>follows\<close>.\<close>
definition tracked :: "loop_state \<Rightarrow> bool" where
  "tracked ls =
     (follows ls
      \<and> (\<forall>x \<in> set (history ls). \<exists>r. x = Inr r)
      \<and> (last_action ls, repeated_actions ls) = tally (map action_of (history ls))
      \<and> step ls = int (length (history ls)) + 1)"

text \<open>
  The loop variables when the condition of the \<^verbatim>\<open>while\<close> loop is tested (\<open>pending\<close>): no
  record so far has another status than \<^verbatim>\<open>CONTINUE\<close>. And when the loop is left
  (\<open>stopped\<close>): only the last record can have another status, which is the final status.
\<close>
definition pending :: "int \<Rightarrow> loop_state \<Rightarrow> bool" where
  "pending max_steps ls =
     (status ls = ''CONTINUE''
      \<and> step ls = int (length (history ls)) + 1
      \<and> int (length (history ls)) \<le> max 0 max_steps
      \<and> map sr_status (steps ls) = replicate (length (history ls) + 1) ''CONTINUE'')"

definition stopped :: "int \<Rightarrow> loop_state \<Rightarrow> bool" where
  "stopped max_steps ls =
     (int (length (history ls)) \<le> max 0 max_steps
      \<and> length (steps ls) = length (history ls) + 1
      \<and> map sr_status (butlast (steps ls)) = replicate (length (history ls)) ''CONTINUE''
      \<and> status ls = sr_status (last (steps ls))
      \<and> (status ls \<in> set [''COMPLETE'', ''FAILED'', ''ERROR'']
         \<or> status ls = ''CONTINUE'' \<and> int (length (history ls)) = max 0 max_steps
           \<and> max_steps < step ls))"

section \<open>Properties\<close>

subsection \<open>The decision step\<close>

lemmas io_defs = bind_def return_def raise_def try_except_def lift_def page_call_def
  model_call_def get_self_def set_self_def

lemma py_in_strip: "py_in x (py_strip t) \<Longrightarrow> py_in x t"
  unfolding py_in_def py_strip_def
  by (meson sublist_dropWhile sublist_order.dual_order.trans sublist_rev_right)

text \<open>
  Claim C2. At a step count of 8 or more, when the language model returns a text that
  contains neither \<^verbatim>\<open>TASK_COMPLETE\<close> nor \<^verbatim>\<open>TASK_FAILED\<close>, \<^verbatim>\<open>determine_action\<close>
  returns \<^verbatim>\<open>TASK_COMPLETE\<close> instead of that text.
\<close>
theorem forced_completion_from_step_8:
  assumes "step_count (self m) \<ge> 8"
    and "evaluate_visible_text B (world m) = (Inr visible_text, w1)"
    and "evaluate_interactive_elements B w1 = (Inr elements, w2)"
    and "chat_completions_create B (build_prompt task (self m) visible_text elements) w2
           = (Inr response, w3)"
    and "choices response = Some text # others"
    and "\<not> py_in ''TASK_COMPLETE'' text" and "\<not> py_in ''TASK_FAILED'' text"
  shows "fst (determine_action B task page_text m) = Inr ''TASK_COMPLETE''"
proof -
  have "read_answer response = Inr (py_strip text)"
    using assms(5) by (simp add: read_answer_def py_index_def)
  moreover have "\<not> py_in ''TASK_COMPLETE'' (py_strip text)"
    and "\<not> py_in ''TASK_FAILED'' (py_strip text)"
    using assms(6,7) py_in_strip by blast+
  ultimately show ?thesis
    using assms(1-4) by (simp add: determine_action_def io_defs)
qed

theorem forced_completion_from_step_8_witness:
  "step_count (self (running 8 [''SCROLL''])) \<ge> 8
   \<and> \<not> py_in ''TASK_COMPLETE'' ''SCROLL'' \<and> \<not> py_in ''TASK_FAILED'' ''SCROLL''
   \<and> fst (determine_action scripted ''find the pricing link'' ''<html></html>''
            (running 8 [''SCROLL''])) = Inr ''TASK_COMPLETE''"
proof -
  have a: "step_count (self (running 8 [''SCROLL''])) \<ge> 8"
    by (simp add: running_def new_client_def)
  have b: "evaluate_visible_text scripted (world (running 8 [''SCROLL''])) = (Inr [], [''SCROLL''])"
    by (simp add: scripted_def running_def)
  have c: "evaluate_interactive_elements scripted [''SCROLL''] = (Inr [], [''SCROLL''])"
    by (simp add: scripted_def)
  have d: "chat_completions_create scripted
             (build_prompt ''find the pricing link'' (self (running 8 [''SCROLL''])) [] [])
             [''SCROLL''] = (Inr \<lparr>choices = [Some ''SCROLL'']\<rparr>, [])"
    by (simp add: scripted_def)
  have e: "choices \<lparr>choices = [Some ''SCROLL'']\<rparr> = Some ''SCROLL'' # []"
    by simp
  have f: "\<not> py_in ''TASK_COMPLETE'' ''SCROLL''" and g: "\<not> py_in ''TASK_FAILED'' ''SCROLL''"
    by (simp_all add: py_in_def sublist_code)
  from forced_completion_from_step_8 [OF a b c d e f g] a f g show ?thesis
    by blast
qed

text \<open>
  Claim C6. When the call of the language model raises, or its response cannot be read
  (no choice, or a content of \<^verbatim>\<open>None\<close>), \<^verbatim>\<open>determine_action\<close> returns the text
  \<^verbatim>\<open>TASK_FAILED\<close>: it returns, and does not raise.
\<close>
theorem model_failure_becomes_task_failed:
  assumes "evaluate_visible_text B (world m) = (Inr visible_text, w1)"
    and "evaluate_interactive_elements B w1 = (Inr elements, w2)"
    and "chat_completions_create B (build_prompt task (self m) visible_text elements) w2
           = (outcome, w3)"
    and "(\<exists>e. outcome = Inl e) \<or> (\<exists>response e. outcome = Inr response \<and> read_answer response = Inl e)"
  shows "fst (determine_action B task page_text m) = Inr ''TASK_FAILED''"
  using assms by (auto simp: determine_action_def io_defs)

theorem model_failure_becomes_task_failed_witness:
  "chat_completions_create scripted
     (build_prompt ''find the pricing link'' (self ready) [] []) []
     = (Inl (PyException ''APIConnectionError'' ''Connection error.''), [])
   \<and> fst (determine_action scripted ''find the pricing link'' ''<html></html>'' ready)
       = Inr ''TASK_FAILED''"
proof -
  have b: "evaluate_visible_text scripted (world ready) = (Inr [], [])"
    by (simp add: scripted_def ready_def running_def)
  have c: "evaluate_interactive_elements scripted [] = (Inr [], [])"
    by (simp add: scripted_def)
  have d: "chat_completions_create scripted
             (build_prompt ''find the pricing link'' (self ready) [] []) []
           = (Inl (PyException ''APIConnectionError'' ''Connection error.''), [])"
    by (simp add: scripted_def)
  have e: "(\<exists>e. (Inl (PyException ''APIConnectionError'' ''Connection error.'')
              :: py_exception + completion) = Inl e)
     \<or> (\<exists>response e. Inl (PyException ''APIConnectionError'' ''Connection error.'') = Inr response
          \<and> read_answer response = Inl e)"
    by simp
  from model_failure_becomes_task_failed [OF b c d e] d show ?thesis
    by blast
qed

subsection \<open>The executor and the log of faults\<close>

lemma may_continue_simps [simp]:
  "may_continue None" "may_continue (Some r) = continues r"
  by (simp_all add: may_continue_def)

lemma continues_simps [simp]:
  "continues \<lparr>ar_status = ''CONTINUE'', ar_message = msg\<rparr>"
  by (simp add: continues_def)

lemma settled_simps [simp]:
  "settled \<lparr>ar_status = ''CONTINUE'', ar_message = msg\<rparr>"
  "settled \<lparr>ar_status = ''COMPLETE'', ar_message = msg\<rparr>"
  "settled \<lparr>ar_status = ''FAILED'', ar_message = msg\<rparr>"
  by (simp_all add: settled_def)

lemma continues_settled: "continues r \<Longrightarrow> settled r"
  by (simp add: continues_def settled_def)

lemma fault_free_refl [simp]: "fault_free m m"
  by (simp add: fault_free_def)

lemma fault_free_update [simp]:
  "fault_free m (m\<lparr>world := w\<rparr>)" "fault_free m (m\<lparr>self := c\<rparr>)"
  by (simp_all add: fault_free_def)

lemma fault_free_one_fault: "fault_free m m' \<Longrightarrow> one_fault m e m'"
  by (simp add: fault_free_def one_fault_def)

lemma fault_free_then:
  "fault_free m m1 \<Longrightarrow> fault_free m1 m2 \<Longrightarrow> fault_free m m2"
  "fault_free m m1 \<Longrightarrow> one_fault m1 e m2 \<Longrightarrow> one_fault m e m2"
  by (simp_all add: fault_free_def one_fault_def)

lemma cleanD:
  assumes "clean P f"
  shows "f m = (Inr x, m') \<Longrightarrow> fault_free m m' \<and> P x"
    and "f m = (Inl e, m') \<Longrightarrow> one_fault m e m'"
  using assms unfolding clean_def by force+

lemma cleanI:
  assumes "\<And>m x m'. f m = (Inr x, m') \<Longrightarrow> fault_free m m' \<and> P x"
    and "\<And>m e m'. f m = (Inl e, m') \<Longrightarrow> one_fault m e m'"
  shows "clean P f"
  unfolding clean_def using assms by (auto split: sum.splits)

lemma clean_return: "P x \<Longrightarrow> clean P (return x)"
  by (rule cleanI) (simp_all add: return_def)

lemma clean_raise: "clean P (raise e)"
  by (rule cleanI) (auto simp: raise_def fault_free_one_fault)

lemma clean_lift: "clean (\<lambda>_. True) (lift r)"
  by (rule cleanI) (auto simp: lift_def fault_free_one_fault)

lemma clean_page_call: "clean (\<lambda>_. True) (page_call f)"
  by (rule cleanI)
     (auto simp: page_call_def fault_free_def one_fault_def split: prod.splits sum.splits)

lemma clean_get_self: "clean (\<lambda>_. True) get_self"
  by (rule cleanI) (auto simp: get_self_def)

lemma clean_set_self: "clean (\<lambda>_. True) (set_self f)"
  by (rule cleanI) (auto simp: set_self_def)

lemma clean_bind:
  assumes f: "clean Q f" and g: "\<And>x. Q x \<Longrightarrow> clean P (g x)"
  shows "clean P (bind f g)"
proof (rule cleanI)
  fix m y m'
  assume run: "bind f g m = (Inr y, m')"
  then obtain x m1 where 1: "f m = (Inr x, m1)" and 2: "g x m1 = (Inr y, m')"
    by (auto simp: bind_def split: prod.splits sum.splits)
  from cleanD(1) [OF f 1] have "fault_free m m1" and "Q x" by simp_all
  moreover from cleanD(1) [OF g 2] \<open>Q x\<close> have "fault_free m1 m'" and "P y" by simp_all
  ultimately show "fault_free m m' \<and> P y"
    by (simp add: fault_free_then)
next
  fix m e m'
  assume run: "bind f g m = (Inl e, m')"
  then consider "f m = (Inl e, m')"
    | x m1 where "f m = (Inr x, m1)" and "g x m1 = (Inl e, m')"
    by (auto simp: bind_def split: prod.splits sum.splits)
  then show "one_fault m e m'"
  proof cases
    case 1
    then show ?thesis by (rule cleanD(2) [OF f])
  next
    case 2
    from cleanD(1) [OF f 2(1)] have "fault_free m m1" and "Q x" by simp_all
    moreover from cleanD(2) [OF g 2(2)] \<open>Q x\<close> have "one_fault m1 e m'" by simp
    ultimately show ?thesis by (simp add: fault_free_then)
  qed
qed

lemma clean_weaken: "clean P f \<Longrightarrow> (\<And>x. P x \<Longrightarrow> Q x) \<Longrightarrow> clean Q f"
  by (rule cleanI) (auto dest: cleanD)

lemma clean_then:
  assumes "clean Q f" and "\<And>x. clean P (g x)"
  shows "clean P (bind f g)"
  using assms by (blast intro: clean_bind)

lemma clean_if: "clean P f \<Longrightarrow> clean P g \<Longrightarrow> clean P (if c then f else g)"
  by simp

lemma clean_option:
  "clean P f \<Longrightarrow> (\<And>x. clean P (g x)) \<Longrightarrow> clean P (case v of None \<Rightarrow> f | Some x \<Rightarrow> g x)"
  by (cases v) simp_all

lemmas clean_steps =
  clean_then [OF clean_page_call] clean_then [OF clean_lift] clean_then [OF clean_get_self]
  clean_then [OF clean_set_self] clean_if clean_option

lemma clean_click_matching: "clean may_continue (click_matching B label pause wanted hs)"
proof (induction hs)
  case Nil
  show ?case by (simp add: clean_return)
next
  case (Cons h hs)
  show ?case
    unfolding click_matching.simps
    by (intro clean_steps clean_return Cons) simp
qed

lemma clean_click_first: "clean may_continue (click_first B selector pause msg)"
  unfolding click_first_def
  by (intro clean_steps clean_return) simp_all

lemma clean_or_else:
  assumes "clean may_continue f" and "clean continues g"
  shows "clean continues (bind f (\<lambda>found. case found of Some r \<Rightarrow> return r | None \<Rightarrow> g))"
  using assms(1)
proof (rule clean_bind)
  fix x :: "action_result option"
  assume "may_continue x"
  with assms(2) show "clean continues (case x of Some r \<Rightarrow> return r | None \<Rightarrow> g)"
    by (cases x) (simp_all add: clean_return)
qed

lemma continues_defaults [simp]: "continues no_suitable_element" "continues could_not_parse"
  by (simp_all add: continues_def no_suitable_element_def could_not_parse_def)

lemma clean_click_element:
  "clean continues (click_element B selector label pause first_msg target)"
  unfolding click_element_def
  by (intro clean_or_else clean_steps clean_click_matching clean_click_first clean_return)
    simp_all

lemma clean_click_branch: "clean continues (click_branch B action)"
  unfolding click_branch_def click_button_def click_link_def
  by (intro clean_steps clean_click_element clean_return) simp

lemma clean_fill_first_match: "clean may_continue (fill_first_match B field_name v selectors)"
proof (induction selectors)
  case Nil
  show ?case by (simp add: clean_return)
next
  case (Cons selector rest)
  show ?case
    unfolding fill_first_match.simps
    by (intro clean_steps clean_return Cons) simp
qed

lemma clean_fill_field: "clean continues (fill_field B field_name v)"
  unfolding fill_field_def
  by (intro clean_or_else clean_steps clean_fill_first_match clean_return) simp_all

lemma clean_fill_branch: "clean continues (fill_branch B action)"
  unfolding fill_branch_def Let_def
  by (intro clean_steps clean_fill_field clean_return) simp

lemma clean_navigate_to: "clean continues (navigate_to B url)"
  unfolding navigate_to_def
  by (intro clean_steps clean_return) simp

lemma clean_navigate_branch: "clean continues (navigate_branch B action)"
  unfolding navigate_branch_def
  by (intro clean_steps clean_navigate_to clean_return) simp

lemma clean_search_branch: "clean continues (search_branch B action)"
  unfolding search_branch_def Let_def
  by (intro clean_steps clean_return) simp_all

lemma clean_scroll_branch: "clean continues (scroll_branch B)"
  unfolding scroll_branch_def
  by (intro clean_steps clean_return) simp

lemma clean_unknown_branch: "clean continues (unknown_branch B action)"
  unfolding unknown_branch_def
  by (intro clean_steps clean_return) simp_all

lemma contained_clean:
  assumes "clean settled f"
  shows "contained f"
  unfolding contained_def
  using cleanD [OF assms] by (auto simp: contained_result_def split: sum.splits)

lemma contained_continues: "clean continues f \<Longrightarrow> contained f"
  by (rule contained_clean) (erule clean_weaken, rule continues_settled)

lemma contained_guarded: "guarded f \<Longrightarrow> contained f"
  unfolding contained_def guarded_def by (force split: sum.splits)

lemma guarded_try_except:
  assumes "contained f"
  shows "guarded (try_except f (failed_with what))"
  unfolding guarded_def
proof (intro allI impI)
  fix m r m'
  assume run: "try_except f (failed_with what) m = (r, m')"
  obtain r1 m1 where f: "f m = (r1, m1)" by (cases "f m")
  show "case r of Inr x \<Rightarrow> contained_result m x m' | Inl e \<Rightarrow> False"
  proof (cases r1)
    case (Inl e)
    with assms f have "one_fault m e m1"
      unfolding contained_def by force
    moreover from run f Inl
    have "r = Inr \<lparr>ar_status = ''ERROR'', ar_message = what @ exc_str e\<rparr>" and "m' = m1"
      by (simp_all add: try_except_def failed_with_def return_def)
    ultimately show ?thesis
      by (auto simp: contained_result_def)
  next
    case (Inr x)
    with assms f have "contained_result m x m1"
      unfolding contained_def by force
    moreover from run f Inr have "r = Inr x" and "m' = m1"
      by (simp_all add: try_except_def)
    ultimately show ?thesis by simp
  qed
qed

lemma contained_if: "contained f \<Longrightarrow> contained g \<Longrightarrow> contained (if c then f else g)"
  by simp

lemma guarded_execute_action: "guarded (execute_action B action)"
  unfolding execute_action_def Let_def
  by (intro guarded_try_except contained_if contained_guarded [OF guarded_try_except]
        contained_continues clean_click_branch clean_fill_branch clean_scroll_branch
        clean_navigate_branch clean_search_branch clean_unknown_branch
        contained_clean [OF clean_return])
     simp_all

lemma execute_action_contained:
  "\<exists>r m'. execute_action B action m = (Inr r, m') \<and> contained_result m r m'"
proof -
  obtain r m' where run: "execute_action B action m = (r, m')"
    by (cases "execute_action B action m")
  with guarded_execute_action [of B action] show ?thesis
    unfolding guarded_def by (cases r) force+
qed

subsection \<open>The loop\<close>

lemma bind_Inr:
  "bind f g m = (Inr y, m') \<longleftrightarrow> (\<exists>x m1. f m = (Inr x, m1) \<and> g x m1 = (Inr y, m'))"
  by (auto simp: bind_def split: prod.splits sum.splits)

lemma execute_action_status:
  assumes "execute_action B action m = (r, m')"
  shows "\<exists>x. r = Inr x \<and> ar_status x \<in> set [''CONTINUE'', ''COMPLETE'', ''FAILED'', ''ERROR'']"
  using execute_action_contained [of B action m] assms
  by (auto simp: contained_result_def settled_def)

lemma execute_task_status:
  assumes "execute_task B task m = (Inr ret, m')"
  shows "tr_status ret \<in> set [''CONTINUE'', ''COMPLETE'', ''FAILED'', ''ERROR'']"
proof -
  from assms obtain action ma r mb where "execute_action B action ma = (Inr r, mb)"
    and "tr_status ret = ar_status r"
    unfolding execute_task_def bind_Inr by (auto simp: return_def)
  with execute_action_status [of B action ma "Inr r" mb] show ?thesis
    by simp
qed

lemma repetition_check_status:
  assumes "repetition_check ret previous repeated = (result, previous', repeated')"
  shows "tr_status result = tr_status ret \<or> tr_status result = ''COMPLETE''"
  using assms by (auto simp: repetition_check_def Let_def split: if_splits)

lemma loop_body_raised:
  assumes "execute_task B task m = (Inl e, m')"
  shows "loop_body B task ls m =
    (Inr (ls\<lparr>steps := steps ls @ [error_record (step ls) e], status := ''ERROR'',
              history := history ls @ [Inl e]\<rparr>, True), m')"
  using assms by (simp add: loop_body_def try_except_def bind_def return_def)

lemma loop_body_returned:
  assumes "execute_task B task m = (Inr ret, m')"
    and "repetition_check ret (last_action ls) (repeated_actions ls) = (result, previous, repeated)"
  shows "loop_body B task ls m =
    (Inr (ls\<lparr>steps := steps ls @ [result_record (step ls) result], step := step ls + 1,
              status := tr_status result, last_action := previous,
              repeated_actions := repeated, history := history ls @ [Inr ret]\<rparr>,
          tr_status result \<in> set [''COMPLETE'', ''FAILED'', ''ERROR'']), m')"
  using assms by (simp add: loop_body_def try_except_def bind_def return_def)

text \<open>An invariant rule for the loop: \<open>I\<close> holds whenever the condition is tested, \<open>Q\<close>
  when the loop is left.\<close>
lemma autonomous_loop_rule:
  assumes "I ls"
    and raised: "\<And>ls m e m'. I ls \<Longrightarrow> status ls = ''CONTINUE'' \<Longrightarrow> step ls \<le> max_steps \<Longrightarrow>
       execute_task B task m = (Inl e, m') \<Longrightarrow>
       Q (ls\<lparr>steps := steps ls @ [error_record (step ls) e], status := ''ERROR'',
              history := history ls @ [Inl e]\<rparr>)"
    and returned: "\<And>ls m ret m' result previous repeated ls'.
       I ls \<Longrightarrow> status ls = ''CONTINUE'' \<Longrightarrow> step ls \<le> max_steps \<Longrightarrow>
       execute_task B task m = (Inr ret, m') \<Longrightarrow>
       repetition_check ret (last_action ls) (repeated_actions ls) = (result, previous, repeated) \<Longrightarrow>
       ls' = ls\<lparr>steps := steps ls @ [result_record (step ls) result], step := step ls + 1,
              status := tr_status result, last_action := previous,
              repeated_actions := repeated, history := history ls @ [Inr ret]\<rparr> \<Longrightarrow>
       (if tr_status result \<in> set [''COMPLETE'', ''FAILED'', ''ERROR''] then Q ls' else I ls')"
    and exhausted: "\<And>ls. I ls \<Longrightarrow> \<not> (status ls = ''CONTINUE'' \<and> step ls \<le> max_steps) \<Longrightarrow> Q ls"
  shows "\<exists>ls' m'. autonomous_loop B task max_steps ls m = (Inr ls', m') \<and> Q ls'"
  using assms
proof (induction B task max_steps ls m rule: autonomous_loop.induct)
  case (1 B task max_steps ls m)
  note inv = "1.prems"(1) and raised = "1.prems"(2) and returned = "1.prems"(3)
    and exhausted = "1.prems"(4)
  show ?case
  proof (cases "status ls = ''CONTINUE'' \<and> step ls \<le> max_steps")
    case False
    from exhausted [OF inv False] have "Q ls" .
    with False show ?thesis by auto
  next
    case True
    obtain r m1 where run: "execute_task B task m = (r, m1)"
      by (cases "execute_task B task m")
    show ?thesis
    proof (cases r)
      case (Inl e)
      with run True raised [OF inv, of m e m1] loop_body_raised [of B task m e m1 ls]
      show ?thesis by simp
    next
      case (Inr ret)
      obtain result previous repeated where
        chk: "repetition_check ret (last_action ls) (repeated_actions ls) = (result, previous, repeated)"
        by (cases "repetition_check ret (last_action ls) (repeated_actions ls)")
      define ls' where "ls' = ls\<lparr>steps := steps ls @ [result_record (step ls) result],
        step := step ls + 1, status := tr_status result, last_action := previous,
        repeated_actions := repeated, history := history ls @ [Inr ret]\<rparr>"
      from run Inr have run': "execute_task B task m = (Inr ret, m1)" by simp
      have body: "loop_body B task ls m =
          (Inr (ls', tr_status result \<in> set [''COMPLETE'', ''FAILED'', ''ERROR'']), m1)"
        unfolding ls'_def by (rule loop_body_returned [OF run' chk])
      from True have c: "status ls = ''CONTINUE''" and s: "step ls \<le> max_steps" by simp_all
      note next_state = returned [OF inv c s run' chk ls'_def]
      show ?thesis
      proof (cases "tr_status result \<in> set [''COMPLETE'', ''FAILED'', ''ERROR'']")
        case left: True
        with next_state have "Q ls'" by simp
        with True body left show ?thesis by simp
      next
        case stay: False
        with next_state have "I ls'" by simp
        have "\<exists>ls'' m'. autonomous_loop B task max_steps ls' m1 = (Inr ls'', m') \<and> Q ls''"
          using stay
          by (intro "1.IH" [OF True body [symmetric] refl refl _ \<open>I ls'\<close>] raised returned exhausted)
            simp_all
        with True body stay show ?thesis by simp
      qed
    qed
  qed
qed

lemma autonomous_loop_outcome:
  "\<exists>ls m'. autonomous_loop B task max_steps (initial_loop_state url session) m = (Inr ls, m')
     \<and> int (length (history ls)) \<le> max 0 max_steps
     \<and> (status ls \<in> set [''COMPLETE'', ''FAILED'', ''ERROR''] \<or> max_steps < step ls)
     \<and> (\<forall>h e. history ls = h @ [Inl e] \<longrightarrow>
           status ls = ''ERROR'' \<and> last (steps ls) = error_record (step ls) e)"
proof (rule autonomous_loop_rule [where I = "\<lambda>ls.
    status ls \<in> set [''CONTINUE'', ''COMPLETE'', ''FAILED'', ''ERROR'']
    \<and> step ls = int (length (history ls)) + 1
    \<and> int (length (history ls)) \<le> max 0 max_steps
    \<and> (\<forall>h e. history ls \<noteq> h @ [Inl e])"])
  show "status (initial_loop_state url session) \<in> set [''CONTINUE'', ''COMPLETE'', ''FAILED'', ''ERROR'']
    \<and> step (initial_loop_state url session) = int (length (history (initial_loop_state url session))) + 1
    \<and> int (length (history (initial_loop_state url session))) \<le> max 0 max_steps
    \<and> (\<forall>h e. history (initial_loop_state url session) \<noteq> h @ [Inl e])"
    by (simp add: initial_loop_state_def)
next
  fix ls :: loop_state and e
  define ls' where "ls' = ls\<lparr>steps := steps ls @ [error_record (step ls) e],
        status := ''ERROR'', history := history ls @ [Inl e]\<rparr>"
  assume "status ls \<in> set [''CONTINUE'', ''COMPLETE'', ''FAILED'', ''ERROR'']
    \<and> step ls = int (length (history ls)) + 1
    \<and> int (length (history ls)) \<le> max 0 max_steps
    \<and> (\<forall>h e. history ls \<noteq> h @ [Inl e])"
    and "step ls \<le> max_steps"
  then have "int (length (history ls')) \<le> max 0 max_steps
    \<and> (status ls' \<in> set [''COMPLETE'', ''FAILED'', ''ERROR''] \<or> max_steps < step ls')
    \<and> (\<forall>h e. history ls' = h @ [Inl e] \<longrightarrow>
           status ls' = ''ERROR'' \<and> last (steps ls') = error_record (step ls') e)"
    by (simp add: ls'_def)
  then show "int (length (history (ls\<lparr>steps := steps ls @ [error_record (step ls) e],
        status := ''ERROR'', history := history ls @ [Inl e]\<rparr>))) \<le> max 0 max_steps
    \<and> (status (ls\<lparr>steps := steps ls @ [error_record (step ls) e],
        status := ''ERROR'', history := history ls @ [Inl e]\<rparr>) \<in> set [''COMPLETE'', ''FAILED'', ''ERROR'']
       \<or> max_steps < step (ls\<lparr>steps := steps ls @ [error_record (step ls) e],
        status := ''ERROR'', history := history ls @ [Inl e]\<rparr>))
    \<and> (\<forall>h ea. history (ls\<lparr>steps := steps ls @ [error_record (step ls) e],
        status := ''ERROR'', history := history ls @ [Inl e]\<rparr>) = h @ [Inl ea] \<longrightarrow>
           status (ls\<lparr>steps := steps ls @ [error_record (step ls) e],
        status := ''ERROR'', history := history ls @ [Inl e]\<rparr>) = ''ERROR''
         \<and> last (steps (ls\<lparr>steps := steps ls @ [error_record (step ls) e],
        status := ''ERROR'', history := history ls @ [Inl e]\<rparr>))
           = error_record (step (ls\<lparr>steps := steps ls @ [error_record (step ls) e],
        status := ''ERROR'', history := history ls @ [Inl e]\<rparr>)) ea)"
    unfolding ls'_def .
next
  fix ls :: loop_state and m :: "'a machine" and ret m' result previous repeated ls'
  assume inv: "status ls \<in> set [''CONTINUE'', ''COMPLETE'', ''FAILED'', ''ERROR'']
    \<and> step ls = int (length (history ls)) + 1
    \<and> int (length (history ls)) \<le> max 0 max_steps
    \<and> (\<forall>h e. history ls \<noteq> h @ [Inl e])"
    and le: "step ls \<le> max_steps"
    and run: "execute_task B task m = (Inr ret, m')"
    and chk: "repetition_check ret (last_action ls) (repeated_actions ls) = (result, previous, repeated)"
    and ls': "ls' = ls\<lparr>steps := steps ls @ [result_record (step ls) result], step := step ls + 1,
              status := tr_status result, last_action := previous,
              repeated_actions := repeated, history := history ls @ [Inr ret]\<rparr>"
  from execute_task_status [OF run] repetition_check_status [OF chk]
  have st: "tr_status result \<in> set [''CONTINUE'', ''COMPLETE'', ''FAILED'', ''ERROR'']"
    by auto
  show "if tr_status result \<in> set [''COMPLETE'', ''FAILED'', ''ERROR'']
        then int (length (history ls')) \<le> max 0 max_steps
          \<and> (status ls' \<in> set [''COMPLETE'', ''FAILED'', ''ERROR''] \<or> max_steps < step ls')
          \<and> (\<forall>h e. history ls' = h @ [Inl e] \<longrightarrow>
                status ls' = ''ERROR'' \<and> last (steps ls') = error_record (step ls') e)
        else status ls' \<in> set [''CONTINUE'', ''COMPLETE'', ''FAILED'', ''ERROR'']
          \<and> step ls' = int (length (history ls')) + 1
          \<and> int (length (history ls')) \<le> max 0 max_steps
          \<and> (\<forall>h e. history ls' \<noteq> h @ [Inl e])"
    using st inv le by (auto simp: ls')
next
  fix ls :: loop_state
  assume "status ls \<in> set [''CONTINUE'', ''COMPLETE'', ''FAILED'', ''ERROR'']
    \<and> step ls = int (length (history ls)) + 1
    \<and> int (length (history ls)) \<le> max 0 max_steps
    \<and> (\<forall>h e. history ls \<noteq> h @ [Inl e])"
    and "\<not> (status ls = ''CONTINUE'' \<and> step ls \<le> max_steps)"
  then show "int (length (history ls)) \<le> max 0 max_steps
     \<and> (status ls \<in> set [''COMPLETE'', ''FAILED'', ''ERROR''] \<or> max_steps < step ls)
     \<and> (\<forall>h e. history ls = h @ [Inl e] \<longrightarrow>
           status ls = ''ERROR'' \<and> last (steps ls) = error_record (step ls) e)"
    by auto
qed

subsection \<open>The trace and the step budget\<close>

lemma loop_trace_length:
  assumes "length (steps ls) = length (history ls) + 1"
  shows "\<exists>ls' m'. autonomous_loop B task max_steps ls m = (Inr ls', m')
           \<and> length (steps ls') = length (history ls') + 1"
  by (rule autonomous_loop_rule [where I = "\<lambda>ls. length (steps ls) = length (history ls) + 1"])
     (use assms in \<open>auto split: if_splits\<close>)

text \<open>
  Claim C3. In a run of \<^verbatim>\<open>autonomous_process\<close> that returns its trace, every iteration of
  the loop appended exactly one record: the trace has one record more than the iterations
  that ran (the record of the started session), and \<^verbatim>\<open>total_steps\<close> is the length of the
  trace minus one.
\<close>
theorem trace_has_one_record_per_iteration:
  assumes "autonomous_process B url task max_steps m = (Inr (Success out), m')"
  shows "\<exists>session m1 ls m2.
           create_session B url (m\<lparr>self := new_client\<rparr>) = (Inr session, m1)
         \<and> autonomous_loop B task max_steps (initial_loop_state url session) m1 = (Inr ls, m2)
         \<and> res_steps out = steps ls
         \<and> length (res_steps out) = length (history ls) + 1
         \<and> total_steps out = int (length (res_steps out)) - 1"
proof -
  obtain r m1 where cs: "create_session B url (m\<lparr>self := new_client\<rparr>) = (r, m1)"
    by (cases "create_session B url (m\<lparr>self := new_client\<rparr>)")
  show ?thesis
  proof (cases r)
    case (Inl e)
    with cs assms show ?thesis
      by (auto simp: autonomous_process_def autonomous_session_def try_finally_def
            try_except_def bind_def set_self_def return_def split: prod.splits sum.splits)
  next
    case (Inr session)
    have "length (steps (initial_loop_state url session))
        = length (history (initial_loop_state url session)) + 1"
      by (simp add: initial_loop_state_def)
    from loop_trace_length [OF this, of B task max_steps m1]
    obtain ls m2 where
      run: "autonomous_loop B task max_steps (initial_loop_state url session) m1 = (Inr ls, m2)"
      and len: "length (steps ls) = length (history ls) + 1"
      by blast
    from assms cs Inr run
    have "out = \<lparr>res_task = task, res_url = url, res_steps = steps ls,
                 final_status = status ls, total_steps = int (length (steps ls)) - 1\<rparr>"
      by (auto simp: autonomous_process_def autonomous_session_def try_finally_def
            try_except_def bind_def set_self_def return_def split: prod.splits sum.splits)
    with cs Inr run len show ?thesis by simp
  qed
qed

theorem trace_has_one_record_per_iteration_witness:
  "fst (autonomous_process scripted ''https://example.com'' ''find the pricing link'' 5
          (idle [''SCROLL'', ''TASK_COMPLETE''])) = Inr (Success demo_result)
   \<and> (\<exists>session m1 ls m2.
           create_session scripted ''https://example.com''
             ((idle [''SCROLL'', ''TASK_COMPLETE''])\<lparr>self := new_client\<rparr>) = (Inr session, m1)
         \<and> autonomous_loop scripted ''find the pricing link'' 5
               (initial_loop_state ''https://example.com'' session) m1 = (Inr ls, m2)
         \<and> res_steps demo_result = steps ls
         \<and> length (res_steps demo_result) = length (history ls) + 1
         \<and> total_steps demo_result = int (length (res_steps demo_result)) - 1)"
proof -
  have run: "fst (autonomous_process scripted ''https://example.com'' ''find the pricing link'' 5
          (idle [''SCROLL'', ''TASK_COMPLETE''])) = Inr (Success demo_result)"
    by code_simp
  then have "autonomous_process scripted ''https://example.com'' ''find the pricing link'' 5
          (idle [''SCROLL'', ''TASK_COMPLETE''])
      = (Inr (Success demo_result),
         snd (autonomous_process scripted ''https://example.com'' ''find the pricing link'' 5
          (idle [''SCROLL'', ''TASK_COMPLETE''])))"
    by (simp add: prod_eq_iff)
  from trace_has_one_record_per_iteration [OF this] run show ?thesis
    by blast
qed

lemma pending_initially: "pending max_steps (initial_loop_state url session)"
  by (simp add: pending_def initial_loop_state_def)

lemma pending_length:
  assumes "pending max_steps ls"
  shows "length (steps ls) = length (history ls) + 1"
proof -
  from assms have "length (map sr_status (steps ls))
      = length (replicate (length (history ls) + 1) ''CONTINUE'')"
    unfolding pending_def by simp
  then show ?thesis by simp
qed

lemma stopped_raised:
  assumes "pending max_steps ls" and "step ls \<le> max_steps"
  shows "stopped max_steps (ls\<lparr>steps := steps ls @ [error_record (step ls) e],
           status := ''ERROR'', history := history ls @ [Inl e]\<rparr>)"
  using assms pending_length [OF assms(1)]
  by (simp add: pending_def stopped_def error_record_def)

lemma stopped_returned:
  assumes "pending max_steps ls" and "step ls \<le> max_steps"
    and "tr_status result \<in> set [''COMPLETE'', ''FAILED'', ''ERROR'']"
  shows "stopped max_steps
           (ls\<lparr>steps := steps ls @ [result_record (step ls) result], step := step ls + 1,
               status := tr_status result, last_action := previous,
               repeated_actions := repeated, history := history ls @ [Inr ret]\<rparr>)"
  using assms pending_length [OF assms(1)]
  by (simp add: pending_def stopped_def result_record_def)

lemma pending_returned:
  assumes "pending max_steps ls" and "step ls \<le> max_steps"
    and "tr_status result = ''CONTINUE''"
  shows "pending max_steps
           (ls\<lparr>steps := steps ls @ [result_record (step ls) result], step := step ls + 1,
               status := tr_status result, last_action := previous,
               repeated_actions := repeated, history := history ls @ [Inr ret]\<rparr>)"
  using assms
  by (simp add: pending_def result_record_def replicate_append_same)

lemma stopped_exhausted:
  assumes "pending max_steps ls" and "\<not> (status ls = ''CONTINUE'' \<and> step ls \<le> max_steps)"
  shows "stopped max_steps ls"
proof -
  from assms have st: "status ls = ''CONTINUE''" and over: "max_steps < step ls"
    and count: "step ls = int (length (history ls)) + 1"
    and bound: "int (length (history ls)) \<le> max 0 max_steps"
    and all: "map sr_status (steps ls) = replicate (length (history ls) + 1) ''CONTINUE''"
    by (simp_all add: pending_def)
  from pending_length [OF assms(1)] have len: "length (steps ls) = length (history ls) + 1" .
  then have ne: "steps ls \<noteq> []" by auto
  have "map sr_status (butlast (steps ls)) = butlast (map sr_status (steps ls))"
    by (simp add: map_butlast)
  also have "\<dots> = butlast (replicate (length (history ls)) ''CONTINUE'' @ [''CONTINUE''])"
    unfolding all by (simp add: replicate_append_same)
  also have "\<dots> = replicate (length (history ls)) ''CONTINUE''"
    by simp
  finally have front: "map sr_status (butlast (steps ls))
      = replicate (length (history ls)) ''CONTINUE''" .
  have "sr_status (last (steps ls)) = last (map sr_status (steps ls))"
    using ne by (simp add: last_map)
  also have "\<dots> = ''CONTINUE''"
    unfolding all by simp
  finally have final: "sr_status (last (steps ls)) = ''CONTINUE''" .
  from over count bound have "int (length (history ls)) = max 0 max_steps"
    by simp
  with st over bound len front final show ?thesis
    by (simp add: stopped_def)
qed

lemma autonomous_loop_stopped:
  "\<exists>ls m'. autonomous_loop B task max_steps (initial_loop_state url session) m = (Inr ls, m')
     \<and> stopped max_steps ls"
proof (rule autonomous_loop_rule [where I = "pending max_steps"])
  show "pending max_steps (initial_loop_state url session)"
    by (rule pending_initially)
next
  fix ls :: loop_state and e
  assume "pending max_steps ls" and "step ls \<le> max_steps"
  then show "stopped max_steps (ls\<lparr>steps := steps ls @ [error_record (step ls) e],
           status := ''ERROR'', history := history ls @ [Inl e]\<rparr>)"
    by (rule stopped_raised)
next
  fix ls :: loop_state and m :: "'a machine" and ret m' result previous repeated ls'
  assume inv: "pending max_steps ls" and le: "step ls \<le> max_steps"
    and run: "execute_task B task m = (Inr ret, m')"
    and chk: "repetition_check ret (last_action ls) (repeated_actions ls) = (result, previous, repeated)"
    and ls': "ls' = ls\<lparr>steps := steps ls @ [result_record (step ls) result], step := step ls + 1,
              status := tr_status result, last_action := previous,
              repeated_actions := repeated, history := history ls @ [Inr ret]\<rparr>"
  from execute_task_status [OF run] repetition_check_status [OF chk]
  have st: "tr_status result \<in> set [''CONTINUE'', ''COMPLETE'', ''FAILED'', ''ERROR'']"
    by auto
  show "if tr_status result \<in> set [''COMPLETE'', ''FAILED'', ''ERROR'']
        then stopped max_steps ls' else pending max_steps ls'"
  proof (cases "tr_status result \<in> set [''COMPLETE'', ''FAILED'', ''ERROR'']")
    case True
    with stopped_returned [OF inv le True] show ?thesis
      by (simp add: ls')
  next
    case False
    with st have "tr_status result = ''CONTINUE''" by auto
    from pending_returned [OF inv le this] False show ?thesis
      by (simp add: ls')
  qed
next
  fix ls :: loop_state
  assume "pending max_steps ls" and "\<not> (status ls = ''CONTINUE'' \<and> step ls \<le> max_steps)"
  then show "stopped max_steps ls"
    by (rule stopped_exhausted)
qed

text \<open>
  Claim C4. The loop always ends, after at most \<^verbatim>\<open>max_steps\<close> iterations (none when
  \<^verbatim>\<open>max_steps\<close> is not positive). It stops at the first iteration that produces another
  status than \<^verbatim>\<open>CONTINUE\<close>: every record of the trace but the last has the status
  \<^verbatim>\<open>CONTINUE\<close>, and the last record has the final status. The final status is one of
  \<^verbatim>\<open>COMPLETE\<close>, \<^verbatim>\<open>FAILED\<close>, \<^verbatim>\<open>ERROR\<close>; or else it is \<^verbatim>\<open>CONTINUE\<close>, and then
  all the \<^verbatim>\<open>max_steps\<close> iterations have run and the step counter is above
  \<^verbatim>\<open>max_steps\<close>.
\<close>
theorem loop_stops_within_max_steps:
  "\<exists>ls m'. autonomous_loop B task max_steps (initial_loop_state url session) m = (Inr ls, m')
     \<and> int (length (history ls)) \<le> max 0 max_steps
     \<and> length (steps ls) = length (history ls) + 1
     \<and> map sr_status (butlast (steps ls)) = replicate (length (history ls)) ''CONTINUE''
     \<and> status ls = sr_status (last (steps ls))
     \<and> (status ls \<in> set [''COMPLETE'', ''FAILED'', ''ERROR'']
        \<or> status ls = ''CONTINUE'' \<and> int (length (history ls)) = max 0 max_steps
          \<and> max_steps < step ls)"
  using autonomous_loop_stopped [of B task max_steps url session m]
  unfolding stopped_def .

subsection \<open>Faults\<close>

lemma execute_action_reports_fault:
  "\<exists>r m'. execute_action B action m = (Inr r, m')
     \<and> (faults m' = faults m
        \<or> (\<exists>e. faults m' = faults m @ [e] \<and> ar_status r = ''ERROR''
              \<and> suffix (exc_str e) (ar_message r)))"
proof -
  from execute_action_contained [of B action m]
  obtain r m' where run: "execute_action B action m = (Inr r, m')"
    and res: "contained_result m r m'"
    by blast
  from res have "faults m' = faults m
        \<or> (\<exists>e. faults m' = faults m @ [e] \<and> ar_status r = ''ERROR''
              \<and> suffix (exc_str e) (ar_message r))"
    unfolding contained_result_def fault_free_def one_fault_def
    by (auto simp: suffix_def)
  with run show ?thesis by blast
qed

lemma autonomous_process_after_loop:
  assumes "create_session B url (m\<lparr>self := new_client\<rparr>) = (Inr session, m1)"
    and "autonomous_loop B task max_steps (initial_loop_state url session) m1 = (Inr ls, m2)"
  shows "case close_session B m2 of
          (Inl e, m3) \<Rightarrow> autonomous_process B url task max_steps m = (Inl e, m3)
        | (Inr u, m3) \<Rightarrow>
            autonomous_process B url task max_steps m =
              (Inr (Success \<lparr>res_task = task, res_url = url, res_steps = steps ls,
                             final_status = status ls,
                             total_steps = int (length (steps ls)) - 1\<rparr>), m3)"
proof -
  have "try_except
          (bind (autonomous_session B url task max_steps) (\<lambda>ls.
           return (Success \<lparr>res_task = task, res_url = url, res_steps = steps ls,
                            final_status = status ls,
                            total_steps = int (length (steps ls)) - 1\<rparr>)))
          (\<lambda>e. return (Failure (exc_str e))) (m\<lparr>self := new_client\<rparr>)
        = (Inr (Success \<lparr>res_task = task, res_url = url, res_steps = steps ls,
                             final_status = status ls,
                             total_steps = int (length (steps ls)) - 1\<rparr>), m2)"
    using assms by (simp add: autonomous_session_def try_except_def bind_def return_def)
  then show ?thesis
    by (simp add: autonomous_process_def try_finally_def bind_def set_self_def
          split: prod.splits sum.splits)
qed


text \<open>
  Claim C7, with the exception that the code makes. \<^verbatim>\<open>execute_action\<close> always returns: at
  most one browser operation raises while it runs, and then the returned status is
  \<^verbatim>\<open>ERROR\<close> and the message ends with the description of the fault. Once the session is
  created, the loop always returns its variables, with one of the statuses \<^verbatim>\<open>COMPLETE\<close>,
  \<^verbatim>\<open>FAILED\<close>, \<^verbatim>\<open>ERROR\<close> or with the step budget used up; an iteration in which
  \<^verbatim>\<open>execute_task\<close> raised ends the trace with an \<^verbatim>\<open>ERROR\<close> record and the status
  \<^verbatim>\<open>ERROR\<close>. Then \<^verbatim>\<open>autonomous_process\<close> returns that trace and status when
  \<^verbatim>\<open>close_session\<close> returns in the \<^verbatim>\<open>finally\<close> clause; when \<^verbatim>\<open>close_session\<close> raises
  there, \<^verbatim>\<open>autonomous_process\<close> raises the same exception, and the trace is not returned.
\<close>
theorem faults_do_not_escape:
  assumes "create_session B url (m\<lparr>self := new_client\<rparr>) = (Inr session, m1)"
  shows "(\<exists>r ma'. execute_action B action ma = (Inr r, ma')
            \<and> (faults ma' = faults ma
               \<or> (\<exists>e. faults ma' = faults ma @ [e] \<and> ar_status r = ''ERROR''
                     \<and> suffix (exc_str e) (ar_message r))))
       \<and> (\<exists>ls m2. autonomous_loop B task max_steps (initial_loop_state url session) m1 = (Inr ls, m2)
            \<and> (status ls \<in> set [''COMPLETE'', ''FAILED'', ''ERROR''] \<or> max_steps < step ls)
            \<and> (\<forall>h e. history ls = h @ [Inl e] \<longrightarrow>
                  status ls = ''ERROR'' \<and> last (steps ls) = error_record (step ls) e)
            \<and> (case close_session B m2 of
                 (Inl e, m3) \<Rightarrow> autonomous_process B url task max_steps m = (Inl e, m3)
               | (Inr u, m3) \<Rightarrow>
                   autonomous_process B url task max_steps m =
                     (Inr (Success \<lparr>res_task = task, res_url = url, res_steps = steps ls,
                                    final_status = status ls,
                                    total_steps = int (length (steps ls)) - 1\<rparr>), m3)))"
proof (rule conjI)
  show "\<exists>r ma'. execute_action B action ma = (Inr r, ma')
            \<and> (faults ma' = faults ma
               \<or> (\<exists>e. faults ma' = faults ma @ [e] \<and> ar_status r = ''ERROR''
                     \<and> suffix (exc_str e) (ar_message r)))"
    by (rule execute_action_reports_fault)
next
  from autonomous_loop_outcome [of B task max_steps url session m1]
  obtain ls m2 where
    run: "autonomous_loop B task max_steps (initial_loop_state url session) m1 = (Inr ls, m2)"
    and fin: "status ls \<in> set [''COMPLETE'', ''FAILED'', ''ERROR''] \<or> max_steps < step ls"
    and err: "\<forall>h e. history ls = h @ [Inl e] \<longrightarrow>
                  status ls = ''ERROR'' \<and> last (steps ls) = error_record (step ls) e"
    by blast
  note autonomous_process_after_loop [OF assms run]
  with run fin err
  show "\<exists>ls m2. autonomous_loop B task max_steps (initial_loop_state url session) m1 = (Inr ls, m2)
            \<and> (status ls \<in> set [''COMPLETE'', ''FAILED'', ''ERROR''] \<or> max_steps < step ls)
            \<and> (\<forall>h e. history ls = h @ [Inl e] \<longrightarrow>
                  status ls = ''ERROR'' \<and> last (steps ls) = error_record (step ls) e)
            \<and> (case close_session B m2 of
                 (Inl e, m3) \<Rightarrow> autonomous_process B url task max_steps m = (Inl e, m3)
               | (Inr u, m3) \<Rightarrow>
                   autonomous_process B url task max_steps m =
                     (Inr (Success \<lparr>res_task = task, res_url = url, res_steps = steps ls,
                                    final_status = status ls,
                                    total_steps = int (length (steps ls)) - 1\<rparr>), m3))"
    by (intro exI conjI)
qed

theorem faults_do_not_escape_witness:
  "fst (create_session flaky ''https://example.com'' ((idle [''SCROLL''])\<lparr>self := new_client\<rparr>))
     = Inr demo_session
   \<and> fst (execute_action flaky ''NAVIGATE https://down.example'' ready)
     = Inr \<lparr>ar_status = ''ERROR'', ar_message = ''Navigation failed: Timeout 30000ms exceeded.''\<rparr>
   \<and> faults (snd (execute_action flaky ''NAVIGATE https://down.example'' ready))
     = [timeout_error]
   \<and> fst (autonomous_process flaky ''https://example.com'' ''find the pricing link'' 5 (idle [''SCROLL'']))
     = Inr (Success lost_page_result)
   \<and> (\<exists>r ma'. execute_action flaky ''NAVIGATE https://down.example'' ready = (Inr r, ma')
            \<and> (faults ma' = faults ready
               \<or> (\<exists>e. faults ma' = faults ready @ [e] \<and> ar_status r = ''ERROR''
                     \<and> suffix (exc_str e) (ar_message r))))
   \<and> (\<exists>ls m2. autonomous_loop flaky ''find the pricing link'' 5
                 (initial_loop_state ''https://example.com'' demo_session)
                 (snd (create_session flaky ''https://example.com''
                        ((idle [''SCROLL''])\<lparr>self := new_client\<rparr>))) = (Inr ls, m2)
            \<and> (status ls \<in> set [''COMPLETE'', ''FAILED'', ''ERROR''] \<or> 5 < step ls)
            \<and> (\<forall>h e. history ls = h @ [Inl e] \<longrightarrow>
                  status ls = ''ERROR'' \<and> last (steps ls) = error_record (step ls) e)
            \<and> (case close_session flaky m2 of
                 (Inl e, m3) \<Rightarrow>
                   autonomous_process flaky ''https://example.com'' ''find the pricing link'' 5
                     (idle [''SCROLL'']) = (Inl e, m3)
               | (Inr u, m3) \<Rightarrow>
                   autonomous_process flaky ''https://example.com'' ''find the pricing link'' 5
                     (idle [''SCROLL'']) =
                     (Inr (Success \<lparr>res_task = ''find the pricing link'',
                                    res_url = ''https://example.com'', res_steps = steps ls,
                                    final_status = status ls,
                                    total_steps = int (length (steps ls)) - 1\<rparr>), m3)))"
proof -
  have created: "fst (create_session flaky ''https://example.com''
      ((idle [''SCROLL''])\<lparr>self := new_client\<rparr>)) = Inr demo_session"
    by code_simp
  then have session: "create_session flaky ''https://example.com''
      ((idle [''SCROLL''])\<lparr>self := new_client\<rparr>)
    = (Inr demo_session, snd (create_session flaky ''https://example.com''
        ((idle [''SCROLL''])\<lparr>self := new_client\<rparr>)))"
    by (simp add: prod_eq_iff)
  have executed: "fst (execute_action flaky ''NAVIGATE https://down.example'' ready)
     = Inr \<lparr>ar_status = ''ERROR'', ar_message = ''Navigation failed: Timeout 30000ms exceeded.''\<rparr>"
    by code_simp
  have logged: "faults (snd (execute_action flaky ''NAVIGATE https://down.example'' ready))
     = [timeout_error]"
    by code_simp
  have ran: "fst (autonomous_process flaky ''https://example.com'' ''find the pricing link'' 5
      (idle [''SCROLL''])) = Inr (Success lost_page_result)"
    by code_simp
  note contained = faults_do_not_escape [OF session, of "''NAVIGATE https://down.example''"
      ready "''find the pricing link''" 5]
  from created executed logged ran contained [THEN conjunct1] contained [THEN conjunct2]
  show ?thesis
    by (intro conjI)
qed

text \<open>
  Claim C7 as it is stated fails: \<^verbatim>\<open>close_session\<close> is called in the \<^verbatim>\<open>finally\<close> clause
  with no handler around it. In the world \<open>unclosable\<close> the session is created, the page is
  lost in the second iteration, and the loop ends with the record and the status
  \<^verbatim>\<open>ERROR\<close>; then closing the browser raises, and \<^verbatim>\<open>autonomous_process\<close> raises to its
  caller instead of returning the trace.
\<close>
theorem close_session_fault_reaches_caller:
  "fst (create_session unclosable ''https://example.com''
          ((idle [''SCROLL''])\<lparr>self := new_client\<rparr>)) = Inr demo_session
   \<and> fst (autonomous_loop unclosable ''find the pricing link'' 5
          (initial_loop_state ''https://example.com'' demo_session)
          (snd (create_session unclosable ''https://example.com''
                 ((idle [''SCROLL''])\<lparr>self := new_client\<rparr>)))) = Inr page_lost
   \<and> status page_lost = ''ERROR''
   \<and> last (history page_lost) = Inl page_closed
   \<and> sr_status (last (steps page_lost)) = ''ERROR''
   \<and> fst (autonomous_process unclosable ''https://example.com'' ''find the pricing link'' 5
          (idle [''SCROLL''])) = Inl driver_gone"
  by (intro conjI; code_simp)

subsection \<open>Commands\<close>

lemma bind_lift_Inr [simp]: "bind (lift (Inr x)) f = f x"
  by (simp add: bind_def lift_def)

lemma bind_return [simp]: "bind (return x) f = f x"
  by (simp add: bind_def return_def)

lemma try_except_return [simp]: "try_except (return x) h = return x"
  by (simp add: try_except_def return_def)

text \<open>The branch that \<^verbatim>\<open>execute_action\<close> takes for a click command.\<close>
lemma execute_action_click:
  assumes "\<not> py_in ''TASK_COMPLETE'' (py_upper action)"
    and "\<not> py_in ''TASK_FAILED'' (py_upper action)"
    and "py_startswith (py_upper action) ''CLICK''"
  shows "execute_action B action =
    try_except (try_except (click_branch B action) (failed_with ''Click failed: ''))
      (failed_with ''Action execution failed: '')"
  using assms by (simp add: execute_action_def)

lemma starts_with_one_keyword:
  assumes "py_startswith s ''NAVIGATE''"
  shows "\<not> py_startswith s ''CLICK''" and "\<not> py_startswith s ''FILL''"
    and "\<not> py_startswith s ''SCROLL''"
  using assms by (auto simp: py_startswith_def prefix_def)

lemma execute_action_navigate:
  assumes "\<not> py_in ''TASK_COMPLETE'' (py_upper action)"
    and "\<not> py_in ''TASK_FAILED'' (py_upper action)"
    and "py_startswith (py_upper action) ''NAVIGATE''"
  shows "execute_action B action =
    try_except (try_except (navigate_branch B action) (failed_with ''Navigation failed: ''))
      (failed_with ''Action execution failed: '')"
  using assms starts_with_one_keyword [OF assms(3)] by (simp add: execute_action_def)

lemma split_from_not_Nil: "split_from sep acc s \<noteq> []"
  by (induction sep acc s rule: split_from.induct) auto

lemma split_from_two_pieces:
  assumes "sep \<noteq> []" and "sublist sep s"
  shows "2 \<le> length (split_from sep acc s)"
  using assms
proof (induction sep acc s rule: split_from.induct)
  case (1 sep acc)
  then show ?case by simp
next
  case (2 sep acc c cs)
  show ?case
  proof (cases "prefix sep (c # cs)")
    case True
    with "2.prems"(1) split_from_not_Nil [of sep "[]" "drop (length sep) (c # cs)"]
    show ?thesis
      by (cases "split_from sep [] (drop (length sep) (c # cs))") simp_all
  next
    case False
    with "2.prems" have "sublist sep cs"
      by (simp add: sublist_Cons_right)
    with "2.IH"(2) "2.prems"(1) False show ?thesis
      by simp
  qed
qed

lemma py_split_second:
  assumes "sep \<noteq> []" and "py_in sep s"
  shows "\<exists>piece. py_index (py_split s sep) 1 = Inr piece"
  using split_from_two_pieces [OF assms(1), of s "[]"] assms(2)
  by (simp add: py_index_def py_split_def py_in_def)

lemma click_target_defined: "\<exists>target. click_target action = Inr target"
  using py_split_second [of "[sq]" action]
  by (auto simp: click_target_def quoted_text_def)

text \<open>
  Claim C8. A click command for a button, on a page where the queries for buttons find
  none, returns the status \<^verbatim>\<open>CONTINUE\<close> with the message that no suitable element was
  found; nothing is raised and no fault is logged.
\<close>
theorem click_without_buttons_continues:
  assumes "\<not> py_in ''TASK_COMPLETE'' (py_upper action)"
    and "\<not> py_in ''TASK_FAILED'' (py_upper action)"
    and "py_startswith (py_upper action) ''CLICK''"
    and "py_in ''button'' (py_lower action)"
    and "query_selector_all B ''button'' (world m) = (Inr [], w1)"
    and "query_selector B ''button'' (if py_in [sq] action then w1 else world m) = (Inr None, w2)"
  shows "execute_action B action m =
    (Inr \<lparr>ar_status = ''CONTINUE'', ar_message = ''No suitable element found to click''\<rparr>,
     m\<lparr>world := w2\<rparr>)"
proof -
  obtain target where target: "click_target action = Inr target"
    using click_target_defined by blast
  have quoted: "target \<noteq> None \<longleftrightarrow> py_in [sq] action"
    using target by (auto simp: click_target_def split: if_splits sum.splits)
  have "click_button B target m = (Inr no_suitable_element, m\<lparr>world := w2\<rparr>)"
  proof (cases target)
    case None
    with quoted assms(6) show ?thesis
      by (simp add: click_button_def click_element_def click_first_def io_defs)
  next
    case (Some wanted)
    with quoted assms(5,6) show ?thesis
      by (simp add: click_button_def click_element_def click_first_def io_defs)
  qed
  with assms(4) target
  have "click_branch B action m = (Inr no_suitable_element, m\<lparr>world := w2\<rparr>)"
    by (simp add: click_branch_def)
  then show ?thesis
    by (simp add: execute_action_click [OF assms(1-3)] try_except_def no_suitable_element_def)
qed

theorem click_without_buttons_continues_witness:
  "\<not> py_in ''TASK_COMPLETE'' (py_upper (''CLICK button '' @ sq # ''Submit'' @ [sq]))
   \<and> \<not> py_in ''TASK_FAILED'' (py_upper (''CLICK button '' @ sq # ''Submit'' @ [sq]))
   \<and> py_startswith (py_upper (''CLICK button '' @ sq # ''Submit'' @ [sq])) ''CLICK''
   \<and> py_in ''button'' (py_lower (''CLICK button '' @ sq # ''Submit'' @ [sq]))
   \<and> query_selector_all scripted ''button'' (world ready) = (Inr [], [])
   \<and> query_selector scripted ''button'' [] = (Inr None, [])
   \<and> execute_action scripted (''CLICK button '' @ sq # ''Submit'' @ [sq]) ready =
       (Inr \<lparr>ar_status = ''CONTINUE'', ar_message = ''No suitable element found to click''\<rparr>,
        ready\<lparr>world := []\<rparr>)"
proof -
  have a: "\<not> py_in ''TASK_COMPLETE'' (py_upper (''CLICK button '' @ sq # ''Submit'' @ [sq]))"
    by code_simp
  have b: "\<not> py_in ''TASK_FAILED'' (py_upper (''CLICK button '' @ sq # ''Submit'' @ [sq]))"
    by code_simp
  have c: "py_startswith (py_upper (''CLICK button '' @ sq # ''Submit'' @ [sq])) ''CLICK''"
    by code_simp
  have d: "py_in ''button'' (py_lower (''CLICK button '' @ sq # ''Submit'' @ [sq]))"
    by code_simp
  have e: "query_selector_all scripted ''button'' (world ready) = (Inr [], [])"
    by (simp add: scripted_def ready_def running_def)
  have q: "py_in [sq] (''CLICK button '' @ sq # ''Submit'' @ [sq])"
    by code_simp
  have f: "query_selector scripted ''button'' [] = (Inr None, [])"
    by (simp add: scripted_def)
  then have f': "query_selector scripted ''button''
      (if py_in [sq] (''CLICK button '' @ sq # ''Submit'' @ [sq]) then [] else world ready)
      = (Inr None, [])"
    using q by simp
  from click_without_buttons_continues [OF a b c d e f'] a b c d e f show ?thesis
    by (intro conjI)
qed

text \<open>
  Claim C9. Three commands of the grammar: executing the text \<^verbatim>\<open>CLICK button 'Submit'\<close>
  is the click on a button for the text \<^verbatim>\<open>Submit\<close>; executing
  \<^verbatim>\<open>FILL email test@example.com\<close> is the filling of the field \<^verbatim>\<open>email\<close> with the value
  \<^verbatim>\<open>test@example.com\<close>; executing \<^verbatim>\<open>NAVIGATE https://example.com\<close> is the navigation to
  \<^verbatim>\<open>https://example.com\<close>; each under the handlers of \<^verbatim>\<open>execute_action\<close>.
\<close>
theorem grammar_examples:
  "execute_action B (''CLICK button '' @ sq # ''Submit'' @ [sq]) =
     try_except (try_except (click_button B (Some ''Submit'')) (failed_with ''Click failed: ''))
       (failed_with ''Action execution failed: '')
   \<and> execute_action B ''FILL email test@example.com'' =
     try_except (try_except (fill_field B ''email'' ''test@example.com'')
                   (failed_with ''Fill failed: ''))
       (failed_with ''Action execution failed: '')
   \<and> execute_action B ''NAVIGATE https://example.com'' =
     try_except (try_except (navigate_to B ''https://example.com'')
                   (failed_with ''Navigation failed: ''))
       (failed_with ''Action execution failed: '')"
proof (intro conjI)
  have a: "\<not> py_in ''TASK_COMPLETE'' (py_upper (''CLICK button '' @ sq # ''Submit'' @ [sq]))"
    and b: "\<not> py_in ''TASK_FAILED'' (py_upper (''CLICK button '' @ sq # ''Submit'' @ [sq]))"
    and c: "py_startswith (py_upper (''CLICK button '' @ sq # ''Submit'' @ [sq])) ''CLICK''"
    by code_simp+
  have d: "py_in ''button'' (py_lower (''CLICK button '' @ sq # ''Submit'' @ [sq]))"
    by code_simp
  have e: "click_target (''CLICK button '' @ sq # ''Submit'' @ [sq]) = Inr (Some ''Submit'')"
    by code_simp
  have "click_branch B (''CLICK button '' @ sq # ''Submit'' @ [sq]) = click_button B (Some ''Submit'')"
    unfolding click_branch_def e using d by simp
  with execute_action_click [OF a b c, of B]
  show "execute_action B (''CLICK button '' @ sq # ''Submit'' @ [sq]) =
     try_except (try_except (click_button B (Some ''Submit'')) (failed_with ''Click failed: ''))
       (failed_with ''Action execution failed: '')"
    by simp
next
  have "\<not> py_in ''TASK_COMPLETE'' (py_upper ''FILL email test@example.com'')"
    and "\<not> py_in ''TASK_FAILED'' (py_upper ''FILL email test@example.com'')"
    and "\<not> py_startswith (py_upper ''FILL email test@example.com'') ''CLICK''"
    and "py_startswith (py_upper ''FILL email test@example.com'') ''FILL''"
    by code_simp+
  moreover have "py_split_ws ''FILL email test@example.com''
      = [''FILL'', ''email'', ''test@example.com'']"
    by code_simp
  ultimately show "execute_action B ''FILL email test@example.com'' =
     try_except (try_except (fill_field B ''email'' ''test@example.com'')
                   (failed_with ''Fill failed: ''))
       (failed_with ''Action execution failed: '')"
    by (simp add: execute_action_def fill_branch_def py_index_def)
next
  have a: "\<not> py_in ''TASK_COMPLETE'' (py_upper ''NAVIGATE https://example.com'')"
    and b: "\<not> py_in ''TASK_FAILED'' (py_upper ''NAVIGATE https://example.com'')"
    and c: "py_startswith (py_upper ''NAVIGATE https://example.com'') ''NAVIGATE''"
    by code_simp+
  have d: "py_in ''http'' ''NAVIGATE https://example.com''"
    by code_simp
  have e: "navigate_url ''NAVIGATE https://example.com'' = Inr ''https://example.com''"
    by code_simp
  have "navigate_branch B ''NAVIGATE https://example.com'' = navigate_to B ''https://example.com''"
    unfolding navigate_branch_def e using d by simp
  with execute_action_navigate [OF a b c, of B]
  show "execute_action B ''NAVIGATE https://example.com'' =
     try_except (try_except (navigate_to B ''https://example.com'')
                   (failed_with ''Navigation failed: ''))
       (failed_with ''Action execution failed: '')"
    by simp
qed

lemma navigate_url_defined:
  assumes "py_in ''http'' action"
  shows "\<exists>url. navigate_url action = Inr url"
  using py_split_second [of "''http''" action] assms
  by (auto simp: navigate_url_def)

text \<open>
  Claim C10. A navigate command changes \<^verbatim>\<open>current_url\<close> only when \<^verbatim>\<open>goto\<close> and the wait
  after it both return, and then to the destination: when either raises, the status is
  \<^verbatim>\<open>ERROR\<close> and \<^verbatim>\<open>current_url\<close> is what it was; when the text has no \<^verbatim>\<open>http\<close>, the
  status is \<^verbatim>\<open>CONTINUE\<close> and \<^verbatim>\<open>current_url\<close> is what it was.
\<close>
theorem navigate_sets_url_after_success_only:
  assumes "\<not> py_in ''TASK_COMPLETE'' (py_upper action)"
    and "\<not> py_in ''TASK_FAILED'' (py_upper action)"
    and "py_startswith (py_upper action) ''NAVIGATE''"
  shows "\<exists>r m'. execute_action B action m = (Inr r, m') \<and>
     (if \<not> py_in ''http'' action
      then ar_status r = ''CONTINUE'' \<and> current_url (self m') = current_url (self m)
      else \<exists>url. navigate_url action = Inr url \<and>
        (case goto B url (world m) of
           (Inl e, w1) \<Rightarrow>
             ar_status r = ''ERROR'' \<and> current_url (self m') = current_url (self m)
         | (Inr u, w1) \<Rightarrow>
             (case wait_for_timeout B 3000 w1 of
                (Inl e, w2) \<Rightarrow>
                  ar_status r = ''ERROR'' \<and> current_url (self m') = current_url (self m)
              | (Inr u, w2) \<Rightarrow>
                  ar_status r = ''CONTINUE'' \<and> current_url (self m') = Some url)))"
proof (cases "py_in ''http'' action")
  case False
  then show ?thesis
    by (simp add: execute_action_navigate [OF assms] navigate_branch_def try_except_def
          return_def)
next
  case True
  then obtain url where url: "navigate_url action = Inr url"
    using navigate_url_defined by blast
  obtain r1 w1 where g: "goto B url (world m) = (r1, w1)"
    by (cases "goto B url (world m)")
  obtain r2 w2 where w: "wait_for_timeout B 3000 w1 = (r2, w2)"
    by (cases "wait_for_timeout B 3000 w1")
  show ?thesis
  proof (cases r1)
    case (Inl e)
    with True url g show ?thesis
      by (simp add: execute_action_navigate [OF assms] navigate_branch_def navigate_to_def
            failed_with_def io_defs)
  next
    case goto_ok: (Inr u)
    show ?thesis
    proof (cases r2)
      case (Inl e)
      with True url g w goto_ok show ?thesis
        by (simp add: execute_action_navigate [OF assms] navigate_branch_def navigate_to_def
              failed_with_def io_defs)
    next
      case (Inr u')
      with True url g w goto_ok show ?thesis
        by (simp add: execute_action_navigate [OF assms] navigate_branch_def navigate_to_def
              failed_with_def io_defs)
    qed
  qed
qed

theorem navigate_sets_url_after_success_only_witness:
  "\<not> py_in ''TASK_COMPLETE'' (py_upper ''NAVIGATE https://down.example'')
   \<and> \<not> py_in ''TASK_FAILED'' (py_upper ''NAVIGATE https://down.example'')
   \<and> py_startswith (py_upper ''NAVIGATE https://down.example'') ''NAVIGATE''
   \<and> py_in ''http'' ''NAVIGATE https://down.example''
   \<and> navigate_url ''NAVIGATE https://down.example'' = Inr ''https://down.example''
   \<and> goto flaky ''https://down.example'' (world ready) = (Inl timeout_error, [])
   \<and> fst (execute_action flaky ''NAVIGATE https://down.example'' ready)
       = Inr \<lparr>ar_status = ''ERROR'', ar_message = ''Navigation failed: Timeout 30000ms exceeded.''\<rparr>
   \<and> current_url (self (snd (execute_action flaky ''NAVIGATE https://down.example'' ready)))
       = current_url (self ready)
   \<and> (\<exists>r m'. execute_action flaky ''NAVIGATE https://down.example'' ready = (Inr r, m') \<and>
     (if \<not> py_in ''http'' ''NAVIGATE https://down.example''
      then ar_status r = ''CONTINUE'' \<and> current_url (self m') = current_url (self ready)
      else \<exists>url. navigate_url ''NAVIGATE https://down.example'' = Inr url \<and>
        (case goto flaky url (world ready) of
           (Inl e, w1) \<Rightarrow>
             ar_status r = ''ERROR'' \<and> current_url (self m') = current_url (self ready)
         | (Inr u, w1) \<Rightarrow>
             (case wait_for_timeout flaky 3000 w1 of
                (Inl e, w2) \<Rightarrow>
                  ar_status r = ''ERROR'' \<and> current_url (self m') = current_url (self ready)
              | (Inr u, w2) \<Rightarrow>
                  ar_status r = ''CONTINUE'' \<and> current_url (self m') = Some url))))"
proof -
  have a: "\<not> py_in ''TASK_COMPLETE'' (py_upper ''NAVIGATE https://down.example'')"
    and b: "\<not> py_in ''TASK_FAILED'' (py_upper ''NAVIGATE https://down.example'')"
    and c: "py_startswith (py_upper ''NAVIGATE https://down.example'') ''NAVIGATE''"
    by code_simp+
  have d: "py_in ''http'' ''NAVIGATE https://down.example''"
    by code_simp
  have e: "navigate_url ''NAVIGATE https://down.example'' = Inr ''https://down.example''"
    by code_simp
  have f: "goto flaky ''https://down.example'' (world ready) = (Inl timeout_error, [])"
    by (simp add: flaky_def ready_def running_def)
  have g: "fst (execute_action flaky ''NAVIGATE https://down.example'' ready)
       = Inr \<lparr>ar_status = ''ERROR'', ar_message = ''Navigation failed: Timeout 30000ms exceeded.''\<rparr>"
    by code_simp
  have h: "current_url (self (snd (execute_action flaky ''NAVIGATE https://down.example'' ready)))
       = current_url (self ready)"
    by code_simp
  from navigate_sets_url_after_success_only [OF a b c, of flaky ready] a b c d e f g h
  show ?thesis
    by (intro conjI)
qed

text \<open>
  Claim C5 fails on the code for a destination with the scheme \<^verbatim>\<open>http\<close>: the piece after
  the marker then starts with \<^verbatim>\<open>://\<close>, the marker is not put back, and \<^verbatim>\<open>goto\<close> is called
  with a text that has no scheme. A second \<^verbatim>\<open>http\<close> in the text cuts the destination
  short.
\<close>
theorem navigate_loses_http_scheme:
  "navigate_url ''NAVIGATE http://example.com'' = Inr ''://example.com''
   \<and> execute_action B ''NAVIGATE http://example.com'' =
       try_except (try_except (navigate_to B ''://example.com'')
                     (failed_with ''Navigation failed: ''))
         (failed_with ''Action execution failed: '')
   \<and> navigate_url ''NAVIGATE https://web.archive.org/web/http://example.com''
       = Inr ''https://web.archive.org/web/''"
proof (intro conjI)
  show e: "navigate_url ''NAVIGATE http://example.com'' = Inr ''://example.com''"
    by code_simp
  have a: "\<not> py_in ''TASK_COMPLETE'' (py_upper ''NAVIGATE http://example.com'')"
    and b: "\<not> py_in ''TASK_FAILED'' (py_upper ''NAVIGATE http://example.com'')"
    and c: "py_startswith (py_upper ''NAVIGATE http://example.com'') ''NAVIGATE''"
    by code_simp+
  have d: "py_in ''http'' ''NAVIGATE http://example.com''"
    by code_simp
  have "navigate_branch B ''NAVIGATE http://example.com'' = navigate_to B ''://example.com''"
    unfolding navigate_branch_def e using d by simp
  with execute_action_navigate [OF a b c, of B]
  show "execute_action B ''NAVIGATE http://example.com'' =
       try_except (try_except (navigate_to B ''://example.com'')
                     (failed_with ''Navigation failed: ''))
         (failed_with ''Action execution failed: '')"
    by simp
  show "navigate_url ''NAVIGATE https://web.archive.org/web/http://example.com''
       = Inr ''https://web.archive.org/web/''"
    by code_simp
qed

subsection \<open>Repeated directives\<close>

lemma tally_snoc: "tally (xs @ [a]) = count_step (tally xs) a"
  by (simp add: tally_def)

lemma tally_fst: "fst (tally (xs @ [a])) = a"
  by (simp add: tally_snoc count_step_def)

lemma tally_le_length: "snd (tally xs) \<le> length xs"
  by (induction xs rule: rev_induct) (simp_all add: tally_snoc count_step_def tally_def)

lemma tally_change: "a \<noteq> b \<Longrightarrow> snd (tally (xs @ [b, a])) = 0"
  using tally_snoc [of "xs @ [b]" a] tally_fst [of xs b]
  by (simp add: count_step_def)

lemma tally_repeat: "snd (tally (xs @ [a, a])) = snd (tally (xs @ [a])) + 1"
  using tally_snoc [of "xs @ [a]" a] tally_fst [of xs a]
  by (simp add: count_step_def)

lemma tally_three: "2 \<le> snd (tally (xs @ [a, a, a]))"
  using tally_repeat [of "xs @ [a]" a] tally_repeat [of xs a] by simp

lemma tally_four: "3 \<le> snd (tally (xs @ [a, a, a, a]))"
  using tally_repeat [of "xs @ [a, a]" a] tally_three [of xs a] by simp

lemma repetition_check_counts:
  assumes "repetition_check ret previous repeated = (result, previous', repeated')"
  shows "(previous', repeated') = count_step (previous, repeated) (tr_action ret)"
  using assms by (auto simp: repetition_check_def count_step_def Let_def split: if_splits)

lemma repetition_check_stops:
  assumes "tr_action ret = previous" and "2 \<le> repeated"
    and "\<not> py_in ''SCROLL'' (tr_action ret)"
  shows "fst (repetition_check ret previous repeated) =
    ret\<lparr>tr_status := ''COMPLETE'', tr_message := ''Stopping due to repeated actions''\<rparr>"
  using assms by (simp add: repetition_check_def Let_def)

lemma repetition_check_finishes:
  assumes "tr_action ret = previous" and "3 \<le> repeated"
    and "py_in ''SCROLL'' (tr_action ret)"
  shows "fst (repetition_check ret previous repeated) =
    ret\<lparr>tr_status := ''COMPLETE'', tr_message := ''Finished exploring page content''\<rparr>"
  using assms by (simp add: repetition_check_def Let_def)

lemma repetition_check_keeps:
  assumes "tr_action ret \<noteq> previous \<or> repeated \<le> 1"
  shows "fst (repetition_check ret previous repeated) = ret"
  using assms by (auto simp: repetition_check_def Let_def)

lemma follows_earlier:
  assumes "follows ls" and "k < length (history ls)" and "history ls ! k = Inr ret"
  shows "(steps ls @ [rec]) ! (k + 1) = recorded (history ls @ [x]) k ret"
proof -
  from assms have "steps ls ! (k + 1) = recorded (history ls) k ret"
    and "k + 1 < length (steps ls)"
    unfolding follows_def by simp_all
  moreover from assms(2) have "recorded (history ls @ [x]) k ret = recorded (history ls) k ret"
    by (simp add: recorded_def)
  ultimately show ?thesis
    by (simp add: nth_append)
qed

lemma follows_appended:
  assumes "follows ls" and "\<forall>x \<in> set (history ls). \<exists>r. x = Inr r"
    and last: "\<And>ret. x = Inr ret \<Longrightarrow> rec = recorded (history ls) (length (history ls)) ret"
    and steps': "steps ls' = steps ls @ [rec]"
    and history': "history ls' = history ls @ [x]"
  shows "follows ls'"
  unfolding follows_def steps' history'
proof (intro conjI allI impI)
  show "length (steps ls @ [rec]) = length (history ls @ [x]) + 1"
    using assms(1) by (simp add: follows_def)
next
  fix k ret
  assume "k < length (history ls @ [x]) \<and> (history ls @ [x]) ! k = Inr ret"
  then have k: "k < length (history ls) + 1" and at: "(history ls @ [x]) ! k = Inr ret"
    by simp_all
  show "(steps ls @ [rec]) ! (k + 1) = recorded (history ls @ [x]) k ret"
  proof (cases "k < length (history ls)")
    case True
    with at have "history ls ! k = Inr ret" by (simp add: nth_append)
    with assms(1) True show ?thesis by (rule follows_earlier)
  next
    case False
    with k have eq: "k = length (history ls)" by simp
    with at have "x = Inr ret" by simp
    from last [OF this] have "rec = recorded (history ls) (length (history ls)) ret" .
    moreover have "length (steps ls) = length (history ls) + 1"
      using assms(1) by (simp add: follows_def)
    ultimately show ?thesis
      using eq by (simp add: nth_append recorded_def)
  qed
next
  fix k
  assume "Suc k < length (history ls @ [x])"
  then have "k < length (history ls)" by simp
  with assms(2) obtain r where "history ls ! k = Inr r"
    using nth_mem by blast
  with \<open>k < length (history ls)\<close> show "\<exists>r. (history ls @ [x]) ! k = Inr r"
    by (simp add: nth_append)
qed

lemma tracked_initially: "tracked (initial_loop_state url session)"
  by (simp add: tracked_def initial_loop_state_def follows_def tally_def)

lemma tracked_raised:
  assumes "tracked ls"
  shows "follows (ls\<lparr>steps := steps ls @ [error_record (step ls) e], status := ''ERROR'',
              history := history ls @ [Inl e]\<rparr>)"
proof (rule follows_appended [where ls = ls and x = "Inl e" and rec = "error_record (step ls) e"])
  show "follows ls" using assms by (simp add: tracked_def)
  show "\<forall>x \<in> set (history ls). \<exists>r. x = Inr r" using assms by (simp add: tracked_def)
qed simp_all

lemma tracked_returned:
  assumes inv: "tracked ls"
    and chk: "repetition_check ret (last_action ls) (repeated_actions ls) = (result, previous, repeated)"
    and ls': "ls' = ls\<lparr>steps := steps ls @ [result_record (step ls) result], step := step ls + 1,
              status := tr_status result, last_action := previous,
              repeated_actions := repeated, history := history ls @ [Inr ret]\<rparr>"
  shows "tracked ls'"
  unfolding tracked_def
proof (intro conjI)
  from inv have t: "tally (map action_of (history ls)) = (last_action ls, repeated_actions ls)"
    and n: "step ls = int (length (history ls)) + 1"
    by (simp_all add: tracked_def)
  from chk have "fst (repetition_check ret (last_action ls) (repeated_actions ls)) = result"
    by simp
  with t n
  have rec: "result_record (step ls) result = recorded (history ls) (length (history ls)) ret"
    by (simp add: recorded_def)
  show "follows ls'"
  proof (rule follows_appended [where ls = ls and x = "Inr ret"
          and rec = "result_record (step ls) result"])
    show "follows ls" using inv by (simp add: tracked_def)
    show "\<forall>x \<in> set (history ls). \<exists>r. x = Inr r" using inv by (simp add: tracked_def)
    show "result_record (step ls) result = recorded (history ls) (length (history ls)) ret'"
      if "Inr ret = Inr ret'" for ret' :: task_result
      using that rec by simp
    show "steps ls' = steps ls @ [result_record (step ls) result]" by (simp add: ls')
    show "history ls' = history ls @ [Inr ret]" by (simp add: ls')
  qed
  have "count_step (last_action ls, repeated_actions ls) (tr_action ret) = (previous, repeated)"
    using repetition_check_counts [OF chk] by simp
  with t show "(last_action ls', repeated_actions ls') = tally (map action_of (history ls'))"
    by (simp add: ls' tally_snoc action_of_def)
  show "\<forall>x \<in> set (history ls'). \<exists>r. x = Inr r"
    using inv by (simp add: ls' tracked_def)
  show "step ls' = int (length (history ls')) + 1"
    using n by (simp add: ls')
qed

lemma trace_follows_history:
  "\<exists>ls m'. autonomous_loop B task max_steps (initial_loop_state url session) m = (Inr ls, m')
     \<and> follows ls"
proof (rule autonomous_loop_rule [where I = tracked and Q = follows])
  show "tracked (initial_loop_state url session)"
    by (rule tracked_initially)
next
  fix ls :: loop_state and e
  assume "tracked ls"
  then show "follows (ls\<lparr>steps := steps ls @ [error_record (step ls) e], status := ''ERROR'',
              history := history ls @ [Inl e]\<rparr>)"
    by (rule tracked_raised)
next
  fix ls :: loop_state and ret result previous repeated ls'
  assume "tracked ls"
    and "repetition_check ret (last_action ls) (repeated_actions ls) = (result, previous, repeated)"
    and "ls' = ls\<lparr>steps := steps ls @ [result_record (step ls) result], step := step ls + 1,
              status := tr_status result, last_action := previous,
              repeated_actions := repeated, history := history ls @ [Inr ret]\<rparr>"
  then have "tracked ls'" by (rule tracked_returned)
  then show "if tr_status result \<in> set [''COMPLETE'', ''FAILED'', ''ERROR'']
        then follows ls' else tracked ls'"
    by (simp add: tracked_def)
next
  fix ls :: loop_state
  assume "tracked ls"
  then show "follows ls" by (simp add: tracked_def)
qed

lemma actions_snoc:
  "i < length h \<Longrightarrow> map action_of (take (Suc i) h) = map action_of (take i h) @ [action_of (h ! i)]"
  by (simp add: take_Suc_conv_app_nth)

lemma directive_atD:
  assumes "directive_at h i = Some d"
  shows "i < length h" and "action_of (h ! i) = d"
  using assms by (auto simp: directive_at_def action_of_def split: if_splits sum.splits)

lemma directive_at_returned:
  "i < length h \<Longrightarrow> h ! i = Inr r \<Longrightarrow> directive_at h i = Some (tr_action r)"
  by (simp add: directive_at_def)

lemma actions_last:
  assumes "directive_at h i = Some d"
  shows "map action_of (take (Suc i) h) = map action_of (take i h) @ [d]"
  using directive_atD [OF assms] by (simp add: actions_snoc)

lemma recorded_stops:
  assumes "directive_at h i = Some (tr_action ret)"
    and "directive_at h (Suc i) = Some (tr_action ret)"
    and "directive_at h (Suc (Suc i)) = Some (tr_action ret)"
    and "\<not> py_in ''SCROLL'' (tr_action ret)"
  shows "recorded h (Suc (Suc (Suc i))) ret =
    result_record (int (Suc (Suc (Suc i))) + 1)
      (ret\<lparr>tr_status := ''COMPLETE'', tr_message := ''Stopping due to repeated actions''\<rparr>)"
proof -
  define d where "d = tr_action ret"
  have acts: "map action_of (take (Suc (Suc (Suc i))) h) = map action_of (take i h) @ [d, d, d]"
    using assms(1-3) by (simp add: actions_last d_def)
  have "fst (tally (map action_of (take i h) @ [d, d, d])) = d"
    using tally_fst [of "map action_of (take i h) @ [d, d]" d] by simp
  moreover have "2 \<le> snd (tally (map action_of (take i h) @ [d, d, d]))"
    by (rule tally_three)
  ultimately show ?thesis
    unfolding recorded_def acts
    using assms(4) by (simp add: repetition_check_stops d_def)
qed

lemma recorded_finishes:
  assumes "directive_at h i = Some (tr_action ret)"
    and "directive_at h (Suc i) = Some (tr_action ret)"
    and "directive_at h (Suc (Suc i)) = Some (tr_action ret)"
    and "directive_at h (Suc (Suc (Suc i))) = Some (tr_action ret)"
    and "py_in ''SCROLL'' (tr_action ret)"
  shows "recorded h (Suc (Suc (Suc (Suc i)))) ret =
    result_record (int (Suc (Suc (Suc (Suc i)))) + 1)
      (ret\<lparr>tr_status := ''COMPLETE'', tr_message := ''Finished exploring page content''\<rparr>)"
proof -
  define d where "d = tr_action ret"
  have acts: "map action_of (take (Suc (Suc (Suc (Suc i)))) h)
      = map action_of (take i h) @ [d, d, d, d]"
    using assms(1-4) by (simp add: actions_last d_def)
  have "fst (tally (map action_of (take i h) @ [d, d, d, d])) = d"
    using tally_fst [of "map action_of (take i h) @ [d, d, d]" d] by simp
  moreover have "3 \<le> snd (tally (map action_of (take i h) @ [d, d, d, d]))"
    by (rule tally_four)
  ultimately show ?thesis
    unfolding recorded_def acts
    using assms(5) by (simp add: repetition_check_finishes d_def)
qed

lemma recorded_early:
  assumes "k < 2"
  shows "recorded h k ret = result_record (int k + 1) ret"
proof -
  have "snd (tally (map action_of (take k h))) \<le> length (map action_of (take k h))"
    by (rule tally_le_length)
  with assms have "snd (tally (map action_of (take k h))) \<le> 1" by simp
  then show ?thesis
    by (simp add: recorded_def repetition_check_keeps)
qed

lemma recorded_after_other:
  assumes "directive_at h i = Some c" and "c \<noteq> tr_action ret"
  shows "recorded h (Suc i) ret = result_record (int (Suc i) + 1) ret"
proof -
  have "fst (tally (map action_of (take (Suc i) h))) = c"
    using assms(1) by (simp add: actions_last tally_fst)
  with assms(2) show ?thesis
    by (simp add: recorded_def repetition_check_keeps)
qed

lemma recorded_after_change:
  assumes "directive_at h i = Some c" and "c \<noteq> d" and "directive_at h (Suc i) = Some d"
  shows "recorded h (Suc (Suc i)) ret = result_record (int (Suc (Suc i)) + 1) ret"
proof -
  have "map action_of (take (Suc (Suc i)) h) = map action_of (take i h) @ [c, d]"
    using assms(1,3) by (simp add: actions_last)
  moreover have "snd (tally (map action_of (take i h) @ [c, d])) = 0"
    using assms(2) by (simp add: tally_change)
  ultimately show ?thesis
    by (simp add: recorded_def repetition_check_keeps)
qed
text \<open>
  What the check for repeated actions does in a run, whatever the browser and the model do.
  Let iteration \<open>k\<close> (counted from 0) return a directive.
  If the three iterations before it returned the same text, and the text does not contain
  \<^verbatim>\<open>SCROLL\<close> (in capitals, anywhere), its record has the status \<^verbatim>\<open>COMPLETE\<close> and the
  message \<^verbatim>\<open>Stopping due to repeated actions\<close>. If the four iterations before it
  returned the same text, and the text contains \<^verbatim>\<open>SCROLL\<close>, its record has the status
  \<^verbatim>\<open>COMPLETE\<close> and the message \<^verbatim>\<open>Finished exploring page content\<close>. If it is the first
  or second iteration, or one of the two iterations before it returned another text, its
  record has the status and the message that \<^verbatim>\<open>execute_task\<close> returned.
\<close>
lemma repeated_directives_force_completion:
  assumes run: "autonomous_loop B task max_steps (initial_loop_state url session) m = (Inr ls, m')"
    and k: "k < length (history ls)" and ret: "history ls ! k = Inr ret"
  shows "(3 \<le> k \<and> directive_at (history ls) (k - 1) = Some (tr_action ret)
            \<and> directive_at (history ls) (k - 2) = Some (tr_action ret)
            \<and> directive_at (history ls) (k - 3) = Some (tr_action ret)
            \<and> \<not> py_in ''SCROLL'' (tr_action ret)
          \<longrightarrow> steps ls ! (k + 1) = result_record (int k + 1)
                (ret\<lparr>tr_status := ''COMPLETE'',
                     tr_message := ''Stopping due to repeated actions''\<rparr>))
     \<and> (4 \<le> k \<and> directive_at (history ls) (k - 1) = Some (tr_action ret)
            \<and> directive_at (history ls) (k - 2) = Some (tr_action ret)
            \<and> directive_at (history ls) (k - 3) = Some (tr_action ret)
            \<and> directive_at (history ls) (k - 4) = Some (tr_action ret)
            \<and> py_in ''SCROLL'' (tr_action ret)
          \<longrightarrow> steps ls ! (k + 1) = result_record (int k + 1)
                (ret\<lparr>tr_status := ''COMPLETE'',
                     tr_message := ''Finished exploring page content''\<rparr>))
     \<and> (k < 2 \<or> directive_at (history ls) (k - 1) \<noteq> Some (tr_action ret)
            \<or> directive_at (history ls) (k - 2) \<noteq> Some (tr_action ret)
          \<longrightarrow> steps ls ! (k + 1) = result_record (int k + 1) ret)"
proof -
  from trace_follows_history [of B task max_steps url session m]
  obtain ls0 m0 where "autonomous_loop B task max_steps (initial_loop_state url session) m = (Inr ls0, m0)"
    and "follows ls0"
    by blast
  with run have "follows ls" by simp
  with k ret have rec: "steps ls ! (k + 1) = recorded (history ls) k ret"
    and earlier: "\<And>j. Suc j < length (history ls) \<Longrightarrow> \<exists>r. history ls ! j = Inr r"
    unfolding follows_def by blast+
  have stops: "steps ls ! (k + 1) = result_record (int k + 1)
      (ret\<lparr>tr_status := ''COMPLETE'', tr_message := ''Stopping due to repeated actions''\<rparr>)"
    if "3 \<le> k" and "directive_at (history ls) (k - 1) = Some (tr_action ret)"
      and "directive_at (history ls) (k - 2) = Some (tr_action ret)"
      and "directive_at (history ls) (k - 3) = Some (tr_action ret)"
      and "\<not> py_in ''SCROLL'' (tr_action ret)"
  proof -
    define i where "i = k - 3"
    with that(1) have i: "k = Suc (Suc (Suc i))" by simp
    with that(2-4) have "directive_at (history ls) i = Some (tr_action ret)"
      and "directive_at (history ls) (Suc i) = Some (tr_action ret)"
      and "directive_at (history ls) (Suc (Suc i)) = Some (tr_action ret)"
      by (simp_all add: numeral_3_eq_3)
    from recorded_stops [OF this that(5)] rec i show ?thesis by simp
  qed
  have finishes: "steps ls ! (k + 1) = result_record (int k + 1)
      (ret\<lparr>tr_status := ''COMPLETE'', tr_message := ''Finished exploring page content''\<rparr>)"
    if "4 \<le> k" and "directive_at (history ls) (k - 1) = Some (tr_action ret)"
      and "directive_at (history ls) (k - 2) = Some (tr_action ret)"
      and "directive_at (history ls) (k - 3) = Some (tr_action ret)"
      and "directive_at (history ls) (k - 4) = Some (tr_action ret)"
      and "py_in ''SCROLL'' (tr_action ret)"
  proof -
    define i where "i = k - 4"
    with that(1) have i: "k = Suc (Suc (Suc (Suc i)))" by simp
    with that(2-5) have "directive_at (history ls) i = Some (tr_action ret)"
      and "directive_at (history ls) (Suc i) = Some (tr_action ret)"
      and "directive_at (history ls) (Suc (Suc i)) = Some (tr_action ret)"
      and "directive_at (history ls) (Suc (Suc (Suc i))) = Some (tr_action ret)"
      by (simp_all add: numeral_3_eq_3 eval_nat_numeral)
    from recorded_finishes [OF this that(6)] rec i show ?thesis by simp
  qed
  have keeps: "steps ls ! (k + 1) = result_record (int k + 1) ret"
    if "k < 2 \<or> directive_at (history ls) (k - 1) \<noteq> Some (tr_action ret)
        \<or> directive_at (history ls) (k - 2) \<noteq> Some (tr_action ret)"
  proof (cases "k < 2")
    case True
    with rec show ?thesis by (simp add: recorded_early)
  next
    case False
    define i where "i = k - 2"
    with False have i: "k = Suc (Suc i)" by simp
    from earlier [of "Suc i"] earlier [of i] k i
    obtain r1 r0 where r1: "history ls ! Suc i = Inr r1" and r0: "history ls ! i = Inr r0"
      by auto
    from k i r1 r0 have d1: "directive_at (history ls) (Suc i) = Some (tr_action r1)"
      and d0: "directive_at (history ls) i = Some (tr_action r0)"
      by (simp_all add: directive_at_returned)
    show ?thesis
    proof (cases "tr_action r1 = tr_action ret")
      case False
      from recorded_after_other [OF d1 False] rec i show ?thesis by simp
    next
      case True
      with that \<open>\<not> k < 2\<close> i d1 d0 have "tr_action r0 \<noteq> tr_action r1"
        by simp
      from recorded_after_change [OF d0 this d1, of ret] rec i show ?thesis by simp
    qed
  qed
  show ?thesis
  proof (intro conjI impI)
    assume "3 \<le> k \<and> directive_at (history ls) (k - 1) = Some (tr_action ret)
            \<and> directive_at (history ls) (k - 2) = Some (tr_action ret)
            \<and> directive_at (history ls) (k - 3) = Some (tr_action ret)
            \<and> \<not> py_in ''SCROLL'' (tr_action ret)"
    then show "steps ls ! (k + 1) = result_record (int k + 1)
                (ret\<lparr>tr_status := ''COMPLETE'',
                     tr_message := ''Stopping due to repeated actions''\<rparr>)"
      by (intro stops) simp_all
  next
    assume "4 \<le> k \<and> directive_at (history ls) (k - 1) = Some (tr_action ret)
            \<and> directive_at (history ls) (k - 2) = Some (tr_action ret)
            \<and> directive_at (history ls) (k - 3) = Some (tr_action ret)
            \<and> directive_at (history ls) (k - 4) = Some (tr_action ret)
            \<and> py_in ''SCROLL'' (tr_action ret)"
    then show "steps ls ! (k + 1) = result_record (int k + 1)
                (ret\<lparr>tr_status := ''COMPLETE'',
                     tr_message := ''Finished exploring page content''\<rparr>)"
      by (intro finishes) simp_all
  next
    assume "k < 2 \<or> directive_at (history ls) (k - 1) \<noteq> Some (tr_action ret)
            \<or> directive_at (history ls) (k - 2) \<noteq> Some (tr_action ret)"
    then show "steps ls ! (k + 1) = result_record (int k + 1) ret"
      by (rule keeps)
  qed
qed

lemma repeated_directives_force_completion_example:
  "fst (autonomous_loop scripted ''find the pricing link'' 5
          (initial_loop_state ''https://example.com'' demo_session)
          (running 0 [''CLICK link next'', ''CLICK link next'', ''CLICK link next'',
                      ''CLICK link next'', ''CLICK link next''])) = Inr stalled
   \<and> history stalled ! 3 = Inr (returned 4 ''CLICK link next'' ''No suitable element found to click'')
   \<and> directive_at (history stalled) 2 = Some ''CLICK link next''
   \<and> directive_at (history stalled) 1 = Some ''CLICK link next''
   \<and> directive_at (history stalled) 0 = Some ''CLICK link next''
   \<and> \<not> py_in ''SCROLL'' ''CLICK link next''
   \<and> steps stalled ! 4 = result_record 4
         ((returned 4 ''CLICK link next'' ''No suitable element found to click'')
            \<lparr>tr_status := ''COMPLETE'', tr_message := ''Stopping due to repeated actions''\<rparr>)
   \<and> steps stalled ! 2 = result_record 2
         (returned 2 ''CLICK link next'' ''No suitable element found to click'')
   \<and> fst (autonomous_loop scripted ''find the pricing link'' 6
          (initial_loop_state ''https://example.com'' demo_session)
          (running 0 [''SCROLL'', ''SCROLL'', ''SCROLL'', ''SCROLL'', ''SCROLL'', ''SCROLL'']))
       = Inr scrolled
   \<and> py_in ''SCROLL'' ''SCROLL''
   \<and> steps scrolled ! 5 = result_record 5
         ((returned 5 ''SCROLL'' ''Scrolled down to explore more content'')
            \<lparr>tr_status := ''COMPLETE'', tr_message := ''Finished exploring page content''\<rparr>)"
proof -
  have run1: "fst (autonomous_loop scripted ''find the pricing link'' 5
          (initial_loop_state ''https://example.com'' demo_session)
          (running 0 [''CLICK link next'', ''CLICK link next'', ''CLICK link next'',
                      ''CLICK link next'', ''CLICK link next''])) = Inr stalled"
    by code_simp
  then have loop1: "autonomous_loop scripted ''find the pricing link'' 5
          (initial_loop_state ''https://example.com'' demo_session)
          (running 0 [''CLICK link next'', ''CLICK link next'', ''CLICK link next'',
                      ''CLICK link next'', ''CLICK link next''])
      = (Inr stalled, snd (autonomous_loop scripted ''find the pricing link'' 5
          (initial_loop_state ''https://example.com'' demo_session)
          (running 0 [''CLICK link next'', ''CLICK link next'', ''CLICK link next'',
                      ''CLICK link next'', ''CLICK link next''])))"
    by (simp add: prod_eq_iff)
  have run2: "fst (autonomous_loop scripted ''find the pricing link'' 6
          (initial_loop_state ''https://example.com'' demo_session)
          (running 0 [''SCROLL'', ''SCROLL'', ''SCROLL'', ''SCROLL'', ''SCROLL'', ''SCROLL'']))
       = Inr scrolled"
    by code_simp
  then have loop2: "autonomous_loop scripted ''find the pricing link'' 6
          (initial_loop_state ''https://example.com'' demo_session)
          (running 0 [''SCROLL'', ''SCROLL'', ''SCROLL'', ''SCROLL'', ''SCROLL'', ''SCROLL''])
      = (Inr scrolled, snd (autonomous_loop scripted ''find the pricing link'' 6
          (initial_loop_state ''https://example.com'' demo_session)
          (running 0 [''SCROLL'', ''SCROLL'', ''SCROLL'', ''SCROLL'', ''SCROLL'', ''SCROLL''])))"
    by (simp add: prod_eq_iff)
  have k3: "3 < length (history stalled)"
    and at3: "history stalled ! 3
      = Inr (returned 4 ''CLICK link next'' ''No suitable element found to click'')"
    by code_simp+
  have d2: "directive_at (history stalled) 2 = Some ''CLICK link next''"
    and d1: "directive_at (history stalled) 1 = Some ''CLICK link next''"
    and d0: "directive_at (history stalled) 0 = Some ''CLICK link next''"
    and plain: "\<not> py_in ''SCROLL'' ''CLICK link next''"
    by code_simp+
  have act: "tr_action (returned 4 ''CLICK link next'' ''No suitable element found to click'')
      = ''CLICK link next''"
    by (simp add: returned_def)
  from repeated_directives_force_completion [OF loop1 k3 at3, THEN conjunct1] d2 d1 d0 plain
  have stopped: "steps stalled ! 4 = result_record 4
         ((returned 4 ''CLICK link next'' ''No suitable element found to click'')
            \<lparr>tr_status := ''COMPLETE'', tr_message := ''Stopping due to repeated actions''\<rparr>)"
    by (simp add: act)
  have k1: "1 < length (history stalled)"
    and at1: "history stalled ! 1
      = Inr (returned 2 ''CLICK link next'' ''No suitable element found to click'')"
    by code_simp+
  from repeated_directives_force_completion [OF loop1 k1 at1, THEN conjunct2, THEN conjunct2]
  have kept: "steps stalled ! 2 = result_record 2
         (returned 2 ''CLICK link next'' ''No suitable element found to click'')"
    by (simp add: numeral_2_eq_2)
  have k4: "4 < length (history scrolled)"
    and at4: "history scrolled ! 4
      = Inr (returned 5 ''SCROLL'' ''Scrolled down to explore more content'')"
    by code_simp+
  have s3: "directive_at (history scrolled) 3 = Some ''SCROLL''"
    and s2: "directive_at (history scrolled) 2 = Some ''SCROLL''"
    and s1: "directive_at (history scrolled) 1 = Some ''SCROLL''"
    and s0: "directive_at (history scrolled) 0 = Some ''SCROLL''"
    and scroll: "py_in ''SCROLL'' ''SCROLL''"
    by code_simp+
  have act': "tr_action (returned 5 ''SCROLL'' ''Scrolled down to explore more content'')
      = ''SCROLL''"
    by (simp add: returned_def)
  from repeated_directives_force_completion [OF loop2 k4 at4, THEN conjunct2, THEN conjunct1]
    s3 s2 s1 s0 scroll
  have finished: "steps scrolled ! 5 = result_record 5
         ((returned 5 ''SCROLL'' ''Scrolled down to explore more content'')
            \<lparr>tr_status := ''COMPLETE'', tr_message := ''Finished exploring page content''\<rparr>)"
    by (simp add: act')
  from run1 at3 d2 d1 d0 plain stopped kept run2 scroll finished show ?thesis
    by (intro conjI)
qed

text \<open>
  Claim C1 fails on the code. \<^verbatim>\<open>execute_action\<close> takes a directive for a scroll command
  when its text in upper case starts with \<^verbatim>\<open>SCROLL\<close>; the loop, which is to allow scroll
  commands one more repetition, looks for \<^verbatim>\<open>SCROLL\<close> in capitals anywhere in the text
  instead. A click command with \<^verbatim>\<open>SCROLL\<close> in its quoted text, returned four times in a
  row, is not stopped at its fourth iteration; and the command \<^verbatim>\<open>scroll\<close> in lower case,
  which is executed as a scroll, is stopped at its fourth iteration with the message for
  other commands.
\<close>
theorem repetition_test_is_a_substring_test:
  "fst (autonomous_process scripted ''https://example.com'' ''find the pricing link'' 4
          (idle [click_scroll_down, click_scroll_down, click_scroll_down, click_scroll_down]))
     = Inr (Success click_scroll_down_result)
   \<and> py_startswith (py_upper click_scroll_down) ''CLICK''
   \<and> \<not> py_startswith (py_upper click_scroll_down) ''SCROLL''
   \<and> sr_action (res_steps click_scroll_down_result ! 1) = click_scroll_down
   \<and> sr_action (res_steps click_scroll_down_result ! 2) = click_scroll_down
   \<and> sr_action (res_steps click_scroll_down_result ! 3) = click_scroll_down
   \<and> sr_action (res_steps click_scroll_down_result ! 4) = click_scroll_down
   \<and> sr_status (res_steps click_scroll_down_result ! 4) \<noteq> ''COMPLETE''
   \<and> fst (autonomous_process scripted ''https://example.com'' ''find the pricing link'' 5
          (idle [''scroll'', ''scroll'', ''scroll'', ''scroll'', ''scroll'']))
     = Inr (Success lowercase_scroll_result)
   \<and> py_startswith (py_upper ''scroll'') ''SCROLL''
   \<and> sr_message (res_steps lowercase_scroll_result ! 4) \<noteq> ''Finished exploring page content''"
  by (intro conjI; code_simp)

end
